theory Spec2Isabelle
  imports Complex_Main "HOL-Library.Char_ord" "HOL-Library.List_Lexorder"
begin

section \<open>The option parser of params.h\<close>

text \<open>
  A shallow embedding of \<^verbatim>\<open>src/params.h\<close>: the descriptor class \<^verbatim>\<open>Param\<close> with its
  constructor and \<^verbatim>\<open>Set\<close>, the registration overloads \<^verbatim>\<open>addp\<close>, the parser
  \<^verbatim>\<open>argparse\<close> and the help renderer \<^verbatim>\<open>argdetails\<close>.

  Conventions of the model.
  \<^item> \<^verbatim>\<open>std::string\<close> is \<open>string\<close>; positions are \<open>int\<close>, as the source stores every
    position in an \<^verbatim>\<open>int\<close>. \<^verbatim>\<open>npos\<close> stored in an \<^verbatim>\<open>int\<close> is \<open>-1\<close>; the joined
    argument string is taken to be shorter than \<open>2^31\<close> characters, so that no other
    position is changed by the conversion.
  \<^item> A destination is a \<^verbatim>\<open>void*\<close> into the caller's memory: an address of an explicit
    store. A scalar variable is a \<open>Scalar\<close> cell, a \<^verbatim>\<open>vector\<close> a \<open>Vector\<close> cell.
  \<^item> \<^verbatim>\<open>exit(1)\<close> after writing to \<^verbatim>\<open>stderr\<close> is the outcome \<open>Exits\<close> carrying the text
    written; a C++ exception that leaves the function is \<open>Throws\<close>.
  \<^item> The numeric conversions \<^verbatim>\<open>stoi\<close>, \<^verbatim>\<open>stoul\<close>, \<^verbatim>\<open>stol\<close>, \<^verbatim>\<open>stof\<close>, \<^verbatim>\<open>stod\<close> belong to the
    C++ library, not to this repository: they are a parameter of the model (a record of
    functions, \<open>None\<close> when the library function throws).
\<close>

subsection \<open>Characters and \<^verbatim>\<open>std::string\<close> operations\<close>

definition space :: char where "space = CHR 0x20"
definition dquote :: char where "dquote = CHR 0x22"
definition squote :: char where "squote = CHR 0x27"
definition equals :: char where "equals = CHR 0x3D"
definition backslash :: char where "backslash = CHR 0x5C"
definition newline :: char where "newline = CHR 0x0A"
definition tab :: char where "tab = CHR 0x09"

text \<open>\<^verbatim>\<open>tolower\<close> in the C locale.\<close>

definition tolower :: "char \<Rightarrow> char" where
  "tolower ch = (if CHR ''A'' \<le> ch \<and> ch \<le> CHR ''Z'' then char_of (of_char ch + (32::nat)) else ch)"

text \<open>\<^verbatim>\<open>c_str()\<close> printed through \<^verbatim>\<open>%s\<close>: the characters before the first NUL.\<close>

definition c_str :: "string \<Rightarrow> string" where
  "c_str s = takeWhile (\<lambda>c. c \<noteq> CHR 0x00) s"

text \<open>The index of the first character satisfying \<open>P\<close>, counted from \<open>n\<close>; \<open>-1\<close> if none.\<close>

fun index_from :: "(char \<Rightarrow> bool) \<Rightarrow> string \<Rightarrow> nat \<Rightarrow> int" where
  "index_from P [] n = -1"
| "index_from P (x # xs) n = (if P x then int n else index_from P xs (Suc n))"

text \<open>
  \<^verbatim>\<open>s.find(c, from)\<close> and \<^verbatim>\<open>s.find_first_not_of(c, from)\<close>, result stored in an \<^verbatim>\<open>int\<close>.
  A negative \<open>from\<close> converts to a huge \<^verbatim>\<open>size_t\<close>, beyond the string.
\<close>

definition str_find :: "string \<Rightarrow> char \<Rightarrow> int \<Rightarrow> int" where
  "str_find s c from = (if from < 0 then -1 else index_from (\<lambda>x. x = c) (drop (nat from) s) (nat from))"

definition str_find_first_not_of :: "string \<Rightarrow> char \<Rightarrow> int \<Rightarrow> int" where
  "str_find_first_not_of s c from =
     (if from < 0 then -1 else index_from (\<lambda>x. x \<noteq> c) (drop (nat from) s) (nat from))"

text \<open>
  \<^verbatim>\<open>s.substr(pos, n)\<close> with \<^verbatim>\<open>int\<close> arguments: \<^verbatim>\<open>std::out_of_range\<close> (\<open>None\<close>) when
  \<open>pos\<close> is beyond the string, a negative \<open>n\<close> converts to a huge count (the rest of
  the string).
\<close>

definition str_substr :: "string \<Rightarrow> int \<Rightarrow> int \<Rightarrow> string option" where
  "str_substr s pos n =
     (if pos < 0 \<or> int (length s) < pos then None
      else Some (if n < 0 then drop (nat pos) s else take (nat n) (drop (nat pos) s)))"

text \<open>\<^verbatim>\<open>to_string(int)\<close>: the decimal numeral, with a minus sign for a negative number.\<close>

fun digits :: "nat \<Rightarrow> string" where
  "digits n = (if n < 10 then [''0123456789'' ! n] else digits (n div 10) @ [''0123456789'' ! (n mod 10)])"

declare digits.simps [simp del]

definition to_string :: "int \<Rightarrow> string" where
  "to_string i = (if i < 0 then CHR ''-'' # digits (nat (- i)) else digits (nat i))"

subsection \<open>The joined argument string and the replacement of equals signs\<close>

text \<open>\<^verbatim>\<open>for (i=1; argv[i]!=nullptr; ++i) args += string(argv[i])+" ";\<close>\<close>

fun join_args :: "string list \<Rightarrow> string" where
  "join_args [] = []"
| "join_args (a # argv) = a @ [space] @ join_args argv"

lemma index_from_bounds:
  "index_from P xs n = -1 \<or> (int n \<le> index_from P xs n \<and> index_from P xs n < int n + int (length xs))"
  by (induction xs arbitrary: n) (auto, force+)

lemma str_find_bounds:
  "str_find s c from = -1 \<or>
     (0 \<le> from \<and> from \<le> str_find s c from \<and> str_find s c from < int (length s))"
  using index_from_bounds [of "\<lambda>x. x = c" "drop (nat from) s" "nat from"]
  by (auto simp: str_find_def)

lemma str_find_first_not_of_bounds:
  "str_find_first_not_of s c from = -1 \<or>
     (0 \<le> from \<and> from \<le> str_find_first_not_of s c from \<and> str_find_first_not_of s c from < int (length s))"
  using index_from_bounds [of "\<lambda>x. x \<noteq> c" "drop (nat from) s" "nat from"]
  by (auto simp: str_find_first_not_of_def)

text \<open>
  The loop
  \<^verbatim>\<open>posequals=args.find(' ', 0);
  while(posequals != -1) {
    if (posequals > 0 && args[posequals-1] != '\\') { args[posequals] = ' '; }
    posequals = args.find('=', posequals+1);
  }\<close>
  with \<open>posequals\<close> as the loop variable. The first search is for a space, the later ones
  for an equals sign.
\<close>

function replace_equals :: "string \<Rightarrow> int \<Rightarrow> string" where
  "replace_equals args posequals =
     (if posequals \<noteq> -1 then
        replace_equals
          (if posequals > 0 \<and> args ! nat (posequals - 1) \<noteq> backslash
           then args[nat posequals := space] else args)
          (str_find
             (if posequals > 0 \<and> args ! nat (posequals - 1) \<noteq> backslash
              then args[nat posequals := space] else args)
             equals (posequals + 1))
      else args)"
  by pat_completeness auto
termination
proof (relation "measure (\<lambda>(args, p). if p = -1 then 0 else 1 + (length args - nat p))", goal_cases)
  case 1
  show ?case by simp
next
  case (2 args posequals)
  let ?a = "if posequals > 0 \<and> args ! nat (posequals - 1) \<noteq> backslash
            then args[nat posequals := space] else args"
  have len: "length ?a = length args" by simp
  define r where "r = str_find ?a equals (posequals + 1)"
  from str_find_bounds [of ?a equals "posequals + 1"] len
  have "r = -1 \<or> (0 \<le> posequals + 1 \<and> posequals + 1 \<le> r \<and> r < int (length args))"
    unfolding r_def by simp
  with 2 have "(if r = -1 then 0 else 1 + (length args - nat r)) < 1 + (length args - nat posequals)"
    by (auto split: if_splits)
  with 2 len show ?case unfolding r_def by (auto split: if_splits)
qed

declare replace_equals.simps [simp del]

subsection \<open>The word-boundary scan\<close>

text \<open>
  The loop that fills \<^verbatim>\<open>pos\<close> with \<^verbatim>\<open>[start, end, start, end, ...]\<close>:
  \<^verbatim>\<open>posspace = args.find_first_not_of(' ', location);
  while(posspace != -1 && (unsigned long)posspace != args.length()-1) {
    if (args[posspace] == '"') {
      pos.push_back(posspace+1);
      posquote = posspace; location=posquote;
      posquote = args.find('"', location+1);
      location = posquote; pos.push_back(location);
    } else {
      location = posspace; pos.push_back(location);
      posspace = args.find(' ', location+1);
      location = posspace; pos.push_back(location);
    }
    posspace = args.find_first_not_of(' ', location+1);
  }\<close>
  with \<open>posspace\<close> at the head of a round and \<open>pos\<close> as the arguments of the model. The
  closing quote is searched with \<^verbatim>\<open>args.find('"', location+1)\<close>; when there is none,
  \<open>location\<close> becomes \<open>-1\<close> and the scan starts again at position 0, for ever: the loop is
  a partial function, \<open>None\<close> when it does not return (\<open>pos\<close> grows by two entries in
  each round; the model takes the memory for it as unbounded). For an empty \<open>args\<close> the comparison
  with \<^verbatim>\<open>args.length()-1\<close> is never reached.
\<close>

partial_function (option) scan_words :: "string \<Rightarrow> int \<Rightarrow> int list \<Rightarrow> int list option" where
  "scan_words args posspace pos =
     (if posspace \<noteq> -1 \<and> posspace \<noteq> int (length args) - 1 then
        (if args ! nat posspace = dquote then
           scan_words args
             (str_find_first_not_of args space (str_find args dquote (posspace + 1) + 1))
             (pos @ [posspace + 1, str_find args dquote (posspace + 1)])
         else
           scan_words args
             (str_find_first_not_of args space (str_find args space (posspace + 1) + 1))
             (pos @ [posspace, str_find args space (posspace + 1)]))
      else Some pos)"

declare scan_words.simps [code]

text \<open>
  The first part of \<^verbatim>\<open>argparse\<close>: \<open>args\<close> after the replacement loop, and \<open>args\<close> with the
  \<open>pos\<close> the scan returns.
\<close>

definition replaced_args :: "string list \<Rightarrow> string" where
  "replaced_args argv = replace_equals (join_args argv) (str_find (join_args argv) space 0)"

definition tokenize :: "string list \<Rightarrow> (string \<times> int list) option" where
  "tokenize argv =
     (case scan_words (replaced_args argv) (str_find_first_not_of (replaced_args argv) space 0) [] of
        None \<Rightarrow> None
      | Some pos \<Rightarrow> Some (replaced_args argv, pos))"

subsection \<open>Descriptors, destinations and the library conversions\<close>

text \<open>\<^verbatim>\<open>enum class TYPE\<close> (\<open>TYPE\<close>, \<open>INT\<close> and \<open>CHAR\<close> are reserved syntax in HOL:
  \<open>TYPE_t\<close>, \<open>INT_t\<close>, \<open>CHAR_t\<close>).\<close>

datatype TYPE_t = BOOL | INT_t | UINT | FLOAT | LONG | DOUBLE | CHAR_t | STRING

text \<open>
  The class \<^verbatim>\<open>Param\<close>. The fields \<^verbatim>\<open>type\<close> and \<^verbatim>\<open>set\<close> are \<open>type_tag\<close> and \<open>set_flag\<close>
  here (\<open>set\<close> is the HOL constant for the elements of a list).
\<close>

record Param =
  type_tag :: TYPE_t
  destination :: nat
  longPhrase :: string
  helpPhrase :: string
  xargs :: int
  required :: bool
  set_flag :: bool
  defaultValue :: string

text \<open>
  The values a destination can hold; \<open>'f\<close> and \<open>'d\<close> are the values of \<^verbatim>\<open>float\<close> and
  \<^verbatim>\<open>double\<close>, left to the library. \<^verbatim>\<open>unsigned int\<close> is taken to be 32 bits wide.
\<close>

datatype ('f, 'd) val =
  VBool bool | VInt int | VUInt nat | VFloat 'f | VLong int | VDouble 'd | VChar char | VString string

datatype ('f, 'd) cell = Scalar "('f, 'd) val" | Vector "('f, 'd) val list"

type_synonym ('f, 'd) store = "nat \<rightharpoonup> ('f, 'd) cell"

record ('f, 'd) stdlib =
  stoi :: "string \<Rightarrow> int option"
  stoul :: "string \<Rightarrow> nat option"
  stol :: "string \<Rightarrow> int option"
  stof :: "string \<Rightarrow> 'f option"
  stod :: "string \<Rightarrow> 'd option"

datatype 'a outcome = Returns 'a | Exits string | Throws

text \<open>
  \<^verbatim>\<open>variable->push_back(v)\<close> on the vector at an address. The caller declares the variable
  as a vector when \<open>xargs \<noteq> 1\<close> (the header: "Requires the variable to be a vector"); an
  address holding no vector is read as the empty one.
\<close>

definition push_back :: "('f, 'd) store \<Rightarrow> nat \<Rightarrow> ('f, 'd) val \<Rightarrow> ('f, 'd) store" where
  "push_back st a v = st(a \<mapsto> Vector ((case st a of Some (Vector vs) \<Rightarrow> vs | _ \<Rightarrow> []) @ [v]))"

subsection \<open>\<^verbatim>\<open>Param::Set\<close>\<close>

text \<open>
  The body shared by the cases \<^verbatim>\<open>INT\<close> to \<^verbatim>\<open>STRING\<close> of the \<^verbatim>\<open>switch\<close>, with the
  converted value \<open>conv\<close> (\<open>None\<close>: the conversion throws) and the type name printed:
  \<^verbatim>\<open>if (xargs == 1) { *variable = conv(value); }
  else { try { variable->push_back(conv(value)); }
         catch ( ... ) { fprintf(stderr, "Error in argument (expected type T): %s\n", ...);
                         fprintf(stderr, "Options which expect infinite arguments should be last.\n");
                         exit(1); } }\<close>
  Only the \<^verbatim>\<open>else\<close> branch has the \<^verbatim>\<open>try\<close>.
\<close>

definition conversion_error :: "string \<Rightarrow> string \<Rightarrow> string" where
  "conversion_error tyname v =
     ''Error in argument (expected type '' @ tyname @ ''): '' @ c_str v @ [newline] @
     ''Options which expect infinite arguments should be last.'' @ [newline]"

definition store_value ::
  "Param \<Rightarrow> string \<Rightarrow> string \<Rightarrow> ('f, 'd) val option \<Rightarrow> ('f, 'd) store \<Rightarrow> ('f, 'd) store outcome" where
  "store_value p tyname v conv st =
     (if xargs p = 1 then
        (case conv of None \<Rightarrow> Throws | Some x \<Rightarrow> Returns (st(destination p \<mapsto> Scalar x)))
      else
        (case conv of
           Some x \<Rightarrow> Returns (push_back st (destination p) x)
         | None \<Rightarrow> Exits (conversion_error tyname v)))"

definition Set :: "('f, 'd) stdlib \<Rightarrow> Param \<Rightarrow> string \<Rightarrow> ('f, 'd) store \<Rightarrow> ('f, 'd) store outcome" where
  "Set L p v st =
     (if v = [] then Returns st
      else case type_tag p of
        BOOL \<Rightarrow>
          (let lowercase = map tolower v in
           if lowercase \<noteq> ''false'' \<and> lowercase \<noteq> ''true'' then
             Exits (''Unrecognized default value for boolean option: '' @ [squote] @ c_str v @ [squote, newline])
           else if lowercase = ''true'' then Returns (st(destination p \<mapsto> Scalar (VBool True)))
           else if lowercase = ''false'' then Returns (st(destination p \<mapsto> Scalar (VBool False)))
           else Returns st)
      | INT_t \<Rightarrow> store_value p ''INT'' v (map_option VInt (stoi L v)) st
      | FLOAT \<Rightarrow> store_value p ''FLOAT'' v (map_option VFloat (stof L v)) st
      | DOUBLE \<Rightarrow> store_value p ''DOUBLE'' v (map_option VDouble (stod L v)) st
      | UINT \<Rightarrow> store_value p ''UINT'' v (map_option (\<lambda>n. VUInt (n mod 2 ^ 32)) (stoul L v)) st
      | LONG \<Rightarrow> store_value p ''LONG'' v (map_option VLong (stol L v)) st
      | CHAR_t \<Rightarrow> store_value p ''CHAR'' v (Some (VChar (hd v))) st
      | STRING \<Rightarrow> store_value p ''STRING'' v (Some (VString v)) st)"

subsection \<open>The constructor of \<^verbatim>\<open>Param\<close>\<close>

text \<open>
  The constructor initialises every member but \<^verbatim>\<open>set\<close> from its arguments, and assigns
  \<^verbatim>\<open>set\<close> in the \<^verbatim>\<open>BOOL\<close> branch only. For another type the member keeps the content of
  the memory \<^verbatim>\<open>new\<close> returned: the argument \<open>set0\<close> of the model.
\<close>

definition Param_ctor ::
  "('f, 'd) stdlib \<Rightarrow> bool \<Rightarrow> TYPE_t \<Rightarrow> nat \<Rightarrow> string \<Rightarrow> string \<Rightarrow> int \<Rightarrow> bool \<Rightarrow> string \<Rightarrow>
   ('f, 'd) store \<Rightarrow> (Param \<times> ('f, 'd) store) outcome" where
  "Param_ctor L set0 ty dest lp hp xa rq dv st =
     (let p = \<lparr>type_tag = ty, destination = dest, longPhrase = lp, helpPhrase = hp, xargs = xa,
               required = rq, set_flag = set0, defaultValue = dv\<rparr> in
      if ty = BOOL then
        (let p = p\<lparr>set_flag := True, required := False\<rparr> in
         case (if dv \<noteq> [] then Set L p dv st else Set L p ''false'' st) of
           Returns st' \<Rightarrow> Returns (p, st') | Exits m \<Rightarrow> Exits m | Throws \<Rightarrow> Throws)
      else if xa = 1 then
        (case Set L p dv st of
           Returns st' \<Rightarrow> Returns (p, st') | Exits m \<Rightarrow> Exits m | Throws \<Rightarrow> Throws)
      else Returns (p, st))"

subsection \<open>The registry \<^verbatim>\<open>params_map\<close> and the overloads of \<^verbatim>\<open>addp\<close>\<close>

text \<open>
  \<^verbatim>\<open>map<string, Param*>\<close>: an association list kept in ascending key order, the order in
  which a \<^verbatim>\<open>std::map\<close> is iterated (strings compared character by character, a
  character by its code). Every \<^verbatim>\<open>Param\<close> is allocated by its own \<^verbatim>\<open>new\<close>, so no two
  entries share a descriptor, and the pointer the map stores is modelled by the
  descriptor itself.
\<close>

type_synonym registry = "(string \<times> Param) list"

text \<open>\<^verbatim>\<open>params_map.find(key)\<close>, \<open>None\<close> for \<^verbatim>\<open>end()\<close>.\<close>

fun map_find :: "registry \<Rightarrow> string \<Rightarrow> Param option" where
  "map_find [] key = None"
| "map_find ((k, p) # reg) key = (if k = key then Some p else map_find reg key)"

text \<open>\<^verbatim>\<open>params_map[key] = p\<close>: insert, or replace the entry of an equal key.\<close>

fun map_assign :: "registry \<Rightarrow> string \<Rightarrow> Param \<Rightarrow> registry" where
  "map_assign [] key p = [(key, p)]"
| "map_assign ((k, q) # reg) key p =
     (if key < k then (key, p) # (k, q) # reg
      else if key = k then (key, p) # reg
      else (k, q) # map_assign reg key p)"

text \<open>\<^verbatim>\<open>parameter->set = true\<close> for the descriptor the registry holds under \<open>key\<close>.\<close>

fun mark_set :: "registry \<Rightarrow> string \<Rightarrow> registry" where
  "mark_set [] key = []"
| "mark_set ((k, p) # reg) key =
     (if k = key then (k, p\<lparr>set_flag := True\<rparr>) # reg else (k, p) # mark_set reg key)"

text \<open>
  The two statements every overload consists of:
  \<^verbatim>\<open>priv::Param* addedparam = new priv::Param(...); priv::params_map[key] = addedparam;\<close>
\<close>

definition register_param ::
  "string \<Rightarrow> (Param \<times> ('f, 'd) store) outcome \<Rightarrow> registry \<Rightarrow> (registry \<times> ('f, 'd) store) outcome" where
  "register_param key made reg =
     (case made of
        Returns (p, st') \<Rightarrow> Returns (map_assign reg key p, st')
      | Exits m \<Rightarrow> Exits m
      | Throws \<Rightarrow> Throws)"

text \<open>The nine overloads, in the order of the source.\<close>

definition addp_help where
  "addp_help L set0 ty dest reg st =
     register_param ''--help''
       (Param_ctor L set0 ty dest ''--help'' ''Prints this help message.'' 1 False [] st) reg"

definition addp where
  "addp L set0 ty dest lp hp reg st =
     register_param lp (Param_ctor L set0 ty dest lp hp 1 True [] st) reg"

definition addp_xargs where
  "addp_xargs L set0 ty dest xa lp hp reg st =
     register_param lp (Param_ctor L set0 ty dest lp hp xa True [] st) reg"

definition addp_default where
  "addp_default L set0 ty dest dv lp hp reg st =
     register_param lp (Param_ctor L set0 ty dest lp hp 1 False dv st) reg"

definition addp_xargs_default where
  "addp_xargs_default L set0 ty dest xa dv lp hp reg st =
     register_param lp (Param_ctor L set0 ty dest lp hp xa False dv st) reg"

definition addp_required where
  "addp_required L set0 ty dest rq lp hp reg st =
     register_param lp (Param_ctor L set0 ty dest lp hp 1 rq [] st) reg"

definition addp_xargs_required where
  "addp_xargs_required L set0 ty dest xa rq lp hp reg st =
     register_param lp (Param_ctor L set0 ty dest lp hp xa rq [] st) reg"

definition addp_default_required where
  "addp_default_required L set0 ty dest dv rq lp hp reg st =
     register_param lp (Param_ctor L set0 ty dest lp hp 1 rq dv st) reg"

definition addp_xargs_default_required where
  "addp_xargs_default_required L set0 ty dest xa dv rq lp hp reg st =
     register_param lp (Param_ctor L set0 ty dest lp hp xa rq dv st) reg"

subsection \<open>\<^verbatim>\<open>argparse\<close>: interpreting the words\<close>

text \<open>
  The loop \<^verbatim>\<open>for (auto i=begin(pos); i!=end(pos); ++i)\<close> reads two entries of \<open>pos\<close> in
  each round (\<^verbatim>\<open>int beg=*i++; string key = args.substr(beg, *i-beg);\<close>). Its locals are
  arguments of the model: \<open>readingAnOption\<close>, \<open>parameter\<close> (the pointer into the registry,
  modelled by the key of the entry it points to, \<open>None\<close> for \<^verbatim>\<open>nullptr\<close>) and
  \<open>parameter_counter\<close>.

  \<open>loop_body\<close> is one round, for the entries \<open>beg\<close> and \<open>en\<close>. Its result holds the
  locals, the registry and the store after the round, and says whether the round left
  \<^verbatim>\<open>argparse\<close> by the \<^verbatim>\<open>return\<close> after \<^verbatim>\<open>--help\<close>. \<^verbatim>\<open>substr\<close> throwing and the
  use of a null \<open>parameter\<close> are branches of the model (\<open>Throws\<close>); the second is never
  taken, as \<open>readingAnOption\<close> is false only after \<open>parameter\<close> has been assigned. The
  counter is an unbounded integer: it cannot wrap on fewer than \<open>2^31\<close> words.
\<close>

definition loop_body ::
  "('f, 'd) stdlib \<Rightarrow> string \<Rightarrow> int \<Rightarrow> int \<Rightarrow> bool \<Rightarrow> string option \<Rightarrow> int \<Rightarrow> registry \<Rightarrow>
   ('f, 'd) store \<Rightarrow> (bool \<times> (bool \<times> string option \<times> int) \<times> registry \<times> ('f, 'd) store) outcome" where
  "loop_body L args beg en readingAnOption parameter parameter_counter reg st =
     (case str_substr args beg (en - beg) of
        None \<Rightarrow> Throws
      | Some key \<Rightarrow>
          if readingAnOption then
            (case map_find reg key of
               None \<Rightarrow> Exits (''Unrecognized option '' @ [squote] @ c_str key @ [squote] @ '' in invocation.'')
             | Some p \<Rightarrow>
                 if type_tag p \<noteq> BOOL then Returns (False, (False, Some key, xargs p), reg, st)
                 else
                   (case Set L p ''true'' st of
                      Returns st' \<Rightarrow>
                        if key = ''--help''
                        then Returns (True, (readingAnOption, Some key, parameter_counter), reg, st')
                        else Returns (False, (readingAnOption, Some key, parameter_counter), reg, st')
                    | Exits m \<Rightarrow> Exits m
                    | Throws \<Rightarrow> Throws))
          else
            (case parameter of
               None \<Rightarrow> Throws
             | Some k \<Rightarrow>
                 (case map_find reg k of
                    None \<Rightarrow> Throws
                  | Some p \<Rightarrow>
                      (case Set L p key st of
                         Returns st' \<Rightarrow>
                           if parameter_counter - 1 = 0
                           then Returns (False, (True, parameter, parameter_counter - 1), mark_set reg k, st')
                           else if parameter_counter - 1 < 0
                           then Returns (False, (readingAnOption, parameter, parameter_counter - 1),
                                         mark_set reg k, st')
                           else Returns (False, (readingAnOption, parameter, parameter_counter - 1), reg, st')
                       | Exits m \<Rightarrow> Exits m
                       | Throws \<Rightarrow> Throws))))"

text \<open>
  The loop itself. \<open>pos\<close> always has an even number of entries; the model stops on a
  single leftover entry. The result is that of the last round; after the last entry the
  loop has not left \<^verbatim>\<open>argparse\<close>.
\<close>

fun interpret_words ::
  "('f, 'd) stdlib \<Rightarrow> string \<Rightarrow> int list \<Rightarrow> bool \<Rightarrow> string option \<Rightarrow> int \<Rightarrow> registry \<Rightarrow>
   ('f, 'd) store \<Rightarrow> (bool \<times> (bool \<times> string option \<times> int) \<times> registry \<times> ('f, 'd) store) outcome" where
  "interpret_words L args (beg # en # pos) readingAnOption parameter parameter_counter reg st =
     (case loop_body L args beg en readingAnOption parameter parameter_counter reg st of
        Returns (returned, (readingAnOption', parameter', parameter_counter'), reg', st') \<Rightarrow>
          if returned
          then Returns (True, (readingAnOption', parameter', parameter_counter'), reg', st')
          else interpret_words L args pos readingAnOption' parameter' parameter_counter' reg' st'
      | Exits m \<Rightarrow> Exits m
      | Throws \<Rightarrow> Throws)"
| "interpret_words L args pos readingAnOption parameter parameter_counter reg st =
     Returns (False, (readingAnOption, parameter, parameter_counter), reg, st)"

text \<open>
  The closing loop of \<^verbatim>\<open>argparse\<close>:
  \<^verbatim>\<open>for (auto& entry : priv::params_map)
    if (entry.second->required && !entry.second->set) {
      fprintf(stderr, "Option '%s' required, and not found, or incomplete.\n",
              entry.second->longPhrase.c_str());
      exit(1); }\<close>
\<close>

definition missing_message :: "Param \<Rightarrow> string" where
  "missing_message p =
     ''Option '' @ [squote] @ c_str (longPhrase p) @ [squote] @
     '' required, and not found, or incomplete.'' @ [newline]"

fun check_required :: "registry \<Rightarrow> unit outcome" where
  "check_required [] = Returns ()"
| "check_required ((k, p) # reg) =
     (if required p \<and> \<not> set_flag p then Exits (missing_message p) else check_required reg)"

text \<open>
  \<^verbatim>\<open>argparse(argv)\<close>, with the words after the program name as \<open>argv\<close>. \<open>None\<close>: the call
  does not return, because the word-boundary scan does not.
\<close>

definition argparse ::
  "('f, 'd) stdlib \<Rightarrow> string list \<Rightarrow> registry \<Rightarrow> ('f, 'd) store \<Rightarrow>
   (registry \<times> ('f, 'd) store) outcome option" where
  "argparse L argv reg st =
     (case tokenize argv of
        None \<Rightarrow> None
      | Some (args, pos) \<Rightarrow>
          Some (case interpret_words L args pos True None 1 reg st of
                  Returns (returned, locals, reg', st') \<Rightarrow>
                    if returned then Returns (reg', st')
                    else (case check_required reg' of
                            Returns u \<Rightarrow> Returns (reg', st')
                          | Exits m \<Rightarrow> Exits m
                          | Throws \<Rightarrow> Throws)
                | Exits m \<Rightarrow> Exits m
                | Throws \<Rightarrow> Throws))"

subsection \<open>\<^verbatim>\<open>argdetails\<close>\<close>

fun type_name :: "TYPE_t \<Rightarrow> string" where
  "type_name BOOL = ''bool.''"
| "type_name INT_t = ''int.''"
| "type_name FLOAT = ''float.''"
| "type_name DOUBLE = ''double.''"
| "type_name UINT = ''unsigned int.''"
| "type_name LONG = ''long.''"
| "type_name CHAR_t = ''char.''"
| "type_name STRING = ''string.''"

text \<open>The body of the loop of \<^verbatim>\<open>argdetails\<close>: what one entry appends to \<open>details\<close>.\<close>

definition details_entry :: "Param \<Rightarrow> string" where
  "details_entry p =
     [tab] @ longPhrase p @
     [newline, tab, tab] @ helpPhrase p @
     (if xargs p > 0 \<and> type_tag p \<noteq> BOOL then
        [newline, tab, tab] @ to_string (xargs p) @ '' argument'' @
        (if xargs p \<noteq> 1 then ''s'' else []) @
        '' of type '' @ type_name (type_tag p)
      else []) @
     (if required p = False then
        [newline, tab, tab] @ ''default: '' @ [squote] @ defaultValue p @ [squote]
      else []) @
     [newline]"

fun argdetails_loop :: "registry \<Rightarrow> string \<Rightarrow> string" where
  "argdetails_loop [] details = details"
| "argdetails_loop ((k, p) # reg) details = argdetails_loop reg (details @ details_entry p)"

definition argdetails :: "registry \<Rightarrow> string" where
  "argdetails reg = argdetails_loop reg []"

subsection \<open>A sample library\<close>

text \<open>
  An instance of the library parameter for the concrete examples below: \<^verbatim>\<open>stoi\<close>, \<^verbatim>\<open>stol\<close>
  and \<^verbatim>\<open>stoul\<close> as \<^verbatim>\<open>strtol\<close> and \<^verbatim>\<open>strtoul\<close> read a decimal numeral (leading white
  space, an optional sign, the longest run of digits, at least one; the result checked
  against the range of \<^verbatim>\<open>int\<close>, of a 64-bit \<^verbatim>\<open>long\<close> and of a 64-bit
  \<^verbatim>\<open>unsigned long\<close>, which wraps a negative numeral); \<^verbatim>\<open>stof\<close> and \<^verbatim>\<open>stod\<close> on plain
  decimal fractions, with a rational as the value. The theorems hold for every library.
\<close>

definition is_digit :: "char \<Rightarrow> bool" where
  "is_digit c = (CHR ''0'' \<le> c \<and> c \<le> CHR ''9'')"

definition is_space :: "char \<Rightarrow> bool" where
  "is_space c = (c = space \<or> (CHR 0x09 \<le> c \<and> c \<le> CHR 0x0D))"

definition decimal :: "string \<Rightarrow> nat" where
  "decimal ds = foldl (\<lambda>n c. 10 * n + (of_char c - 48)) 0 ds"

definition strip_sign :: "string \<Rightarrow> bool \<times> string" where
  "strip_sign s =
     (case dropWhile is_space s of
        [] \<Rightarrow> (False, [])
      | c # r \<Rightarrow> if c = CHR ''-'' then (True, r) else if c = CHR ''+'' then (False, r) else (False, c # r))"

definition parse_integer :: "string \<Rightarrow> int option" where
  "parse_integer s =
     (let (neg, r) = strip_sign s; ds = takeWhile is_digit r in
      if ds = [] then None else Some (if neg then - int (decimal ds) else int (decimal ds)))"

definition parse_fraction :: "string \<Rightarrow> rat option" where
  "parse_fraction s =
     (let (neg, r) = strip_sign s;
          ip = takeWhile is_digit r;
          fp = (case dropWhile is_digit r of
                  [] \<Rightarrow> []
                | c # t \<Rightarrow> if c = CHR ''.'' then takeWhile is_digit t else []);
          x = of_nat (decimal ip) + of_nat (decimal fp) / 10 ^ length fp in
      if ip = [] \<and> fp = [] then None else Some (if neg then - x else x))"

definition sample_lib :: "(rat, rat) stdlib" where
  "sample_lib =
     \<lparr>stoi = (\<lambda>s. case parse_integer s of
                     None \<Rightarrow> None
                   | Some i \<Rightarrow> if - (2 ^ 31) \<le> i \<and> i < 2 ^ 31 then Some i else None),
      stoul = (\<lambda>s. case parse_integer s of
                      None \<Rightarrow> None
                    | Some i \<Rightarrow> if - (2 ^ 64) < i \<and> i < 2 ^ 64 then Some (nat (i mod 2 ^ 64)) else None),
      stol = (\<lambda>s. case parse_integer s of
                     None \<Rightarrow> None
                   | Some i \<Rightarrow> if - (2 ^ 63) \<le> i \<and> i < 2 ^ 63 then Some i else None),
      stof = parse_fraction,
      stod = parse_fraction\<rparr>"

subsection \<open>Notions used in the statements\<close>

text \<open>
  The words the loop of \<^verbatim>\<open>argparse\<close> extracts for the entries of \<open>pos\<close>, in order
  (\<open>None\<close> where \<^verbatim>\<open>substr\<close> throws), and those of them that are not empty.
\<close>

fun words_of :: "string \<Rightarrow> int list \<Rightarrow> string option list" where
  "words_of args (beg # en # pos) = str_substr args beg (en - beg) # words_of args pos"
| "words_of args pos = []"

definition value_words :: "string \<Rightarrow> int list \<Rightarrow> string list" where
  "value_words args pos = [w. Some w \<leftarrow> words_of args pos, w \<noteq> []]"

text \<open>
  When the word-boundary scan returns, from \<open>posspace\<close> at the head of a round: every
  word it reaches has its end. A word that opens with a double quote has a later double
  quote, any other word a later space; the search of the next word then starts behind
  that end. Where the end of a word is not found the scan sets \<open>location\<close> to \<open>-1\<close>
  and starts again at position 0 (lemmas \<open>scan_words_returns\<close> and
  \<open>scan_words_never_returns\<close>). Each round moves \<open>posspace\<close> to the right, so this
  is a total function.
\<close>

function scan_returns :: "string \<Rightarrow> int \<Rightarrow> bool" where
  "scan_returns args posspace =
     (if posspace \<noteq> -1 \<and> posspace \<noteq> int (length args) - 1 then
        (if args ! nat posspace = dquote then
           (if str_find args dquote (posspace + 1) = -1 then False
            else scan_returns args
                   (str_find_first_not_of args space (str_find args dquote (posspace + 1) + 1)))
         else
           (if str_find args space (posspace + 1) = -1 then False
            else scan_returns args
                   (str_find_first_not_of args space (str_find args space (posspace + 1) + 1))))
      else True)"
  by pat_completeness auto

termination
proof (relation "measure (\<lambda>(args, p). if p = -1 then 0 else nat (int (length args) - p) + 1)")
  show "wf (measure (\<lambda>(args, p). if p = -1 then 0 else nat (int (length args) - p) + 1))" by simp
next
  fix args :: string and posspace :: int
  assume a: "posspace \<noteq> - 1 \<and> posspace \<noteq> int (length args) - 1"
    and f: "str_find args dquote (posspace + 1) \<noteq> - 1"
  define q where "q = str_find args dquote (posspace + 1)"
  define r where "r = str_find_first_not_of args space (q + 1)"
  from str_find_bounds [of args dquote "posspace + 1"] f
  have q: "posspace + 1 \<le> q" "q < int (length args)" by (auto simp: q_def)
  from str_find_first_not_of_bounds [of args space "q + 1"]
  have "r = -1 \<or> (q + 1 \<le> r \<and> r < int (length args))" by (auto simp: r_def)
  with q a show "((args, str_find_first_not_of args space (str_find args dquote (posspace + 1) + 1)),
           args, posspace) \<in> measure (\<lambda>(args, p). if p = -1 then 0 else nat (int (length args) - p) + 1)"
    unfolding q_def [symmetric] r_def [symmetric] by auto
next
  fix args :: string and posspace :: int
  assume a: "posspace \<noteq> - 1 \<and> posspace \<noteq> int (length args) - 1"
    and f: "str_find args space (posspace + 1) \<noteq> - 1"
  define q where "q = str_find args space (posspace + 1)"
  define r where "r = str_find_first_not_of args space (q + 1)"
  from str_find_bounds [of args space "posspace + 1"] f
  have q: "posspace + 1 \<le> q" "q < int (length args)" by (auto simp: q_def)
  from str_find_first_not_of_bounds [of args space "q + 1"]
  have "r = -1 \<or> (q + 1 \<le> r \<and> r < int (length args))" by (auto simp: r_def)
  with q a show "((args, str_find_first_not_of args space (str_find args space (posspace + 1) + 1)),
           args, posspace) \<in> measure (\<lambda>(args, p). if p = -1 then 0 else nat (int (length args) - p) + 1)"
    unfolding q_def [symmetric] r_def [symmetric] by auto
qed

declare scan_returns.simps [simp del]

text \<open>
  The same for an invocation: every word of the joined argument string that the scan
  reaches and that opens with a double quote has its closing double quote. The joined
  string ends with a space, so a word without a quote always has its end.
\<close>

definition quotes_closed :: "string list \<Rightarrow> bool" where
  "quotes_closed argv =
     scan_returns (replaced_args argv) (str_find_first_not_of (replaced_args argv) space 0)"

text \<open>The vector a destination holds, read as \<open>push_back\<close> reads it.\<close>

definition vector_at :: "('f, 'd) store \<Rightarrow> nat \<Rightarrow> ('f, 'd) val list" where
  "vector_at st a = (case st a of Some (Vector vs) \<Rightarrow> vs | _ \<Rightarrow> [])"

text \<open>
  The per-type value conversion in the specification's words (section 4.2, step 4): a
  boolean must be \<^verbatim>\<open>true\<close> or \<^verbatim>\<open>false\<close> in any capitalisation; a number is read by the
  library conversion of \<^verbatim>\<open>Set\<close> for the type (\<^verbatim>\<open>stoul\<close> narrowed to \<^verbatim>\<open>unsigned int\<close>);
  a character is the first character of a non-empty word; a string is the word.
\<close>

fun spec_conversion :: "('f, 'd) stdlib \<Rightarrow> TYPE_t \<Rightarrow> string \<Rightarrow> ('f, 'd) val option" where
  "spec_conversion L BOOL w =
     (if map tolower w = ''true'' then Some (VBool True)
      else if map tolower w = ''false'' then Some (VBool False) else None)"
| "spec_conversion L INT_t w = map_option VInt (stoi L w)"
| "spec_conversion L UINT w = map_option (\<lambda>n. VUInt (n mod 2 ^ 32)) (stoul L w)"
| "spec_conversion L LONG w = map_option VLong (stol L w)"
| "spec_conversion L FLOAT w = map_option VFloat (stof L w)"
| "spec_conversion L DOUBLE w = map_option VDouble (stod L w)"
| "spec_conversion L CHAR_t w = (case w of [] \<Rightarrow> None | c # cs \<Rightarrow> Some (VChar c))"
| "spec_conversion L STRING w = Some (VString w)"

text \<open>
  The registries the overloads of \<^verbatim>\<open>addp\<close> can build: each overload enters, under the
  key \<open>lp\<close>, a descriptor whose \<open>longPhrase\<close> is \<open>lp\<close> (lemma \<open>addp_registered\<close>).
\<close>

inductive registered :: "registry \<Rightarrow> bool" where
  none: "registered []"
| assign: "registered reg \<Longrightarrow> longPhrase p = lp \<Longrightarrow> registered (map_assign reg lp p)"

text \<open>
  The block of one option in the specification's words (section 4.3): the long phrase,
  the help phrase, the line "<arity> argument(s) of type <type-name>." and the line
  "default: '<defaultValue>'". The argument line is left out for a boolean option and
  for an arity that is not positive; the default line is there when \<open>required\<close> is false.
\<close>

definition spec_arity_line :: "Param \<Rightarrow> string" where
  "spec_arity_line p =
     [newline, tab, tab] @ to_string (xargs p) @ '' argument'' @ (if xargs p = 1 then [] else ''s'') @
     '' of type '' @ type_name (type_tag p)"

definition spec_default_line :: "Param \<Rightarrow> string" where
  "spec_default_line p = [newline, tab, tab] @ ''default: '' @ [squote] @ defaultValue p @ [squote]"

definition spec_block :: "Param \<Rightarrow> string" where
  "spec_block p =
     [tab] @ longPhrase p @ [newline, tab, tab] @ helpPhrase p @
     (if type_tag p = BOOL \<or> xargs p \<le> 0 then [] else spec_arity_line p) @
     (if required p then [] else spec_default_line p) @
     [newline]"

text \<open>The name of a type as the diagnostic of \<^verbatim>\<open>Set\<close> prints it.\<close>

fun type_label :: "TYPE_t \<Rightarrow> string" where
  "type_label BOOL = ''BOOL''"
| "type_label INT_t = ''INT''"
| "type_label UINT = ''UINT''"
| "type_label FLOAT = ''FLOAT''"
| "type_label LONG = ''LONG''"
| "type_label DOUBLE = ''DOUBLE''"
| "type_label CHAR_t = ''CHAR''"
| "type_label STRING = ''STRING''"

subsection \<open>Example descriptors\<close>

definition seed_param :: Param where
  "seed_param = \<lparr>type_tag = INT_t, destination = 0, longPhrase = ''--seed'',
     helpPhrase = ''The seed.'', xargs = 1, required = True, set_flag = False, defaultValue = []\<rparr>"

definition name_param :: Param where
  "name_param = \<lparr>type_tag = STRING, destination = 1, longPhrase = ''--name'',
     helpPhrase = ''The name for this simulation run.'', xargs = 1, required = False,
     set_flag = False, defaultValue = ''simulation''\<rparr>"

definition files_param :: Param where
  "files_param = \<lparr>type_tag = STRING, destination = 2, longPhrase = ''--files'',
     helpPhrase = ''The files to read.'', xargs = -1, required = True,
     set_flag = False, defaultValue = []\<rparr>"

definition quantity_param :: Param where
  "quantity_param = \<lparr>type_tag = INT_t, destination = 3, longPhrase = ''--quantity'',
     helpPhrase = ''The quantity of materials to simulate.'', xargs = 3, required = True,
     set_flag = False, defaultValue = []\<rparr>"

definition help_param :: Param where
  "help_param = \<lparr>type_tag = BOOL, destination = 4, longPhrase = ''--help'',
     helpPhrase = ''Prints this help message.'', xargs = 1, required = False,
     set_flag = True, defaultValue = []\<rparr>"

definition iterations_param :: Param where
  "iterations_param = \<lparr>type_tag = INT_t, destination = 5, longPhrase = ''--iterations'',
     helpPhrase = ''The number of iterations to perform.'', xargs = 1, required = True,
     set_flag = False, defaultValue = []\<rparr>"

text \<open>
  The registry and the store of the example in the header of \<^verbatim>\<open>params.h\<close>, after its four
  registrations (the destinations \<^verbatim>\<open>iterations\<close>, \<^verbatim>\<open>seeds\<close>, \<^verbatim>\<open>name_of_run\<close> and
  \<^verbatim>\<open>showhelp\<close> at the addresses 0 to 3).
\<close>

definition scenario_registry :: registry where
  "scenario_registry =
     [(''--help'', \<lparr>type_tag = BOOL, destination = 3, longPhrase = ''--help'',
                     helpPhrase = ''Shows this help message.'', xargs = 1, required = False,
                     set_flag = True, defaultValue = []\<rparr>),
      (''--iterations'', \<lparr>type_tag = INT_t, destination = 0, longPhrase = ''--iterations'',
                     helpPhrase = ''The number of iterations to perform.'', xargs = 1, required = True,
                     set_flag = False, defaultValue = []\<rparr>),
      (''--name'', \<lparr>type_tag = STRING, destination = 2, longPhrase = ''--name'',
                     helpPhrase = ''The name for this simulation run.'', xargs = 1, required = False,
                     set_flag = False, defaultValue = ''simulation''\<rparr>),
      (''--seeds'', \<lparr>type_tag = FLOAT, destination = 1, longPhrase = ''--seeds'',
                     helpPhrase = ''The seeds to begin simulation.'', xargs = 3, required = False,
                     set_flag = False, defaultValue = []\<rparr>)]"

definition scenario_store :: "(rat, rat) store" where
  "scenario_store = [2 \<mapsto> Scalar (VString ''simulation''), 3 \<mapsto> Scalar (VBool False)]"

text \<open>The equations that evaluate the model on a concrete invocation.\<close>

lemmas eval_defs = replace_equals.simps digits.simps argparse_def tokenize_def replaced_args_def scan_words.simps
  str_find_def str_find_first_not_of_def str_substr_def
  space_def equals_def backslash_def dquote_def squote_def newline_def tab_def c_str_def
  loop_body_def Set_def store_value_def push_back_def conversion_error_def
  sample_lib_def parse_integer_def parse_fraction_def strip_sign_def is_space_def is_digit_def decimal_def
  missing_message_def seed_param_def name_param_def files_param_def quantity_param_def help_param_def iterations_param_def
  scenario_registry_def scenario_store_def tolower_def scan_returns.simps quotes_closed_def

section \<open>Properties\<close>

subsection \<open>Searching and replacing in the argument string\<close>

lemma index_from_found:
  "index_from P xs n = r \<Longrightarrow> r \<noteq> -1 \<Longrightarrow>
     int n \<le> r \<and> nat r - n < length xs \<and> P (xs ! (nat r - n)) \<and> (\<forall>j < nat r - n. \<not> P (xs ! j))"
proof (induction xs arbitrary: n)
  case Nil
  then show ?case by simp
next
  case (Cons x xs)
  show ?case
  proof (cases "P x")
    case True
    with Cons.prems show ?thesis by auto
  next
    case False
    with Cons.prems have r: "index_from P xs (Suc n) = r" by simp
    from Cons.IH [OF r Cons.prems(2)]
    have ih: "int (Suc n) \<le> r" "nat r - Suc n < length xs" "P (xs ! (nat r - Suc n))"
      "\<forall>j < nat r - Suc n. \<not> P (xs ! j)" by auto
    from ih(1) have eq: "nat r - n = Suc (nat r - Suc n)" by linarith
    show ?thesis
      using ih False unfolding eq by (auto simp: nth_Cons split: nat.splits)
  qed
qed

lemma index_from_none: "index_from P xs n = -1 \<Longrightarrow> x \<in> set xs \<Longrightarrow> \<not> P x"
  by (induction xs arbitrary: n) (auto split: if_splits)

lemma str_find_found:
  assumes "str_find s c from = r" "r \<noteq> -1"
  shows "0 \<le> from \<and> from \<le> r \<and> r < int (length s) \<and> s ! nat r = c \<and>
         (\<forall>j. nat from \<le> j \<and> j < nat r \<longrightarrow> s ! j \<noteq> c)"
proof -
  from assms have f0: "0 \<le> from" by (auto simp: str_find_def split: if_splits)
  with assms have ix: "index_from (\<lambda>x. x = c) (drop (nat from) s) (nat from) = r"
    by (simp add: str_find_def)
  from index_from_found [OF ix assms(2)]
  have a: "int (nat from) \<le> r" and b: "nat r - nat from < length (drop (nat from) s)"
    and c: "drop (nat from) s ! (nat r - nat from) = c"
    and d: "\<forall>j < nat r - nat from. drop (nat from) s ! j \<noteq> c" by auto
  from a b f0 have lt: "r < int (length s)" by auto
  from a b c f0 have at: "s ! nat r = c" by (simp add: nat_le_iff)
  have "s ! j \<noteq> c" if "nat from \<le> j" "j < nat r" for j
  proof -
    from that have "j - nat from < nat r - nat from" by linarith
    with d have "drop (nat from) s ! (j - nat from) \<noteq> c" by blast
    moreover from that lt have "nat from + (j - nat from) \<le> length s" by linarith
    ultimately show ?thesis using that by simp
  qed
  with f0 a lt at show ?thesis by auto
qed

lemma str_find_none:
  assumes "str_find s c from = -1" "0 \<le> from" "nat from \<le> j" "j < length s"
  shows "s ! j \<noteq> c"
proof -
  from assms have "index_from (\<lambda>x. x = c) (drop (nat from) s) (nat from) = -1"
    by (simp add: str_find_def)
  moreover have "s ! j \<in> set (drop (nat from) s)"
  proof -
    from assms have "drop (nat from) s ! (j - nat from) = s ! j" by simp
    moreover from assms have "j - nat from < length (drop (nat from) s)" by simp
    ultimately show ?thesis by (metis nth_mem)
  qed
  ultimately show ?thesis using index_from_none by fastforce
qed

lemma replace_equals_length [simp]: "length (replace_equals args pe) = length args"
  by (induction args pe rule: replace_equals.induct) (subst replace_equals.simps, simp)

lemma special_chars [simp]:
  "equals \<noteq> backslash" "space \<noteq> backslash" "equals \<noteq> space" "space \<noteq> equals"
  "dquote \<noteq> space" "dquote \<noteq> equals" "dquote \<noteq> backslash"
  by (simp_all add: equals_def backslash_def space_def dquote_def)

lemma replace_equals_nth:
  assumes "0 \<le> pe" "pe < int (length args)" "args ! nat pe \<noteq> backslash" "i < length args"
  shows "replace_equals args pe ! i =
           (if int i < pe then args ! i
            else if int i = pe then (if 0 < pe \<and> args ! (nat pe - 1) \<noteq> backslash then space else args ! i)
            else if args ! i = equals \<and> args ! (i - 1) \<noteq> backslash then space else args ! i)"
  using assms
proof (induction args pe arbitrary: i rule: replace_equals.induct)
  case (1 args pe)
  define a where "a = (if pe > 0 \<and> args ! nat (pe - 1) \<noteq> backslash then args[nat pe := space] else args)"
  define r where "r = str_find a equals (pe + 1)"
  have len: "length a = length args" by (simp add: a_def)
  have unfold: "replace_equals args pe = replace_equals a r"
    using "1.prems"(1) by (subst replace_equals.simps) (simp add: a_def r_def)
  have a_other: "a ! j = args ! j" if "int j \<noteq> pe" for j
  proof -
    from that "1.prems"(1) have "j \<noteq> nat pe" by linarith
    then show ?thesis by (simp add: a_def)
  qed
  have n1: "nat (pe - 1) = nat pe - 1" by linarith
  have a_pe: "a ! nat pe = (if 0 < pe \<and> args ! (nat pe - 1) \<noteq> backslash then space else args ! nat pe)"
    using "1.prems" unfolding a_def n1 by simp
  have a_pe_nb: "a ! nat pe \<noteq> backslash"
    using a_pe "1.prems"(3) by (simp split: if_splits)
  show ?case
  proof (cases "r = -1")
    case True
    then have res: "replace_equals args pe = a"
      unfolding unfold by (subst replace_equals.simps) simp
    have "args ! i \<noteq> equals" if "pe < int i"
    proof -
      from that "1.prems" have "nat (pe + 1) \<le> i" by linarith
      from str_find_none [OF True [unfolded r_def] _ this] "1.prems" len
      have "a ! i \<noteq> equals" by simp
      with that a_other [of i] show ?thesis by simp
    qed
    moreover have "int i = pe \<Longrightarrow> i = nat pe" by simp
    ultimately show ?thesis
      unfolding res using a_other [of i] a_pe "1.prems"
      by (cases "int i = pe") auto
  next
    case False
    from str_find_found [OF r_def [symmetric] False]
    have r1: "pe + 1 \<le> r" and r2: "r < int (length a)" and r3: "a ! nat r = equals"
      and r4: "\<forall>j. nat (pe + 1) \<le> j \<and> j < nat r \<longrightarrow> a ! j \<noteq> equals" by auto
    have ih: "replace_equals a r ! i =
           (if int i < r then a ! i
            else if int i = r then (if 0 < r \<and> a ! (nat r - 1) \<noteq> backslash then space else a ! i)
            else if a ! i = equals \<and> a ! (i - 1) \<noteq> backslash then space else a ! i)"
      using "1.IH" [of i] "1.prems" r1 r2 r3 len False unfolding a_def r_def by simp
    have prev: "a ! (j - 1) \<noteq> backslash \<longleftrightarrow> args ! (j - 1) \<noteq> backslash" if "pe < int j" for j
    proof (cases "int (j - 1) = pe")
      case True
      then have "j - 1 = nat pe" by simp
      then show ?thesis using a_pe_nb "1.prems"(3) by simp
    next
      case False
      then show ?thesis using a_other by simp
    qed
    consider "int i < pe" | "int i = pe" | "pe < int i" "int i < r" | "int i = r" | "r < int i" by linarith
    then show ?thesis
    proof cases
      case 1
      then show ?thesis unfolding unfold ih using r1 a_other [of i] by simp
    next
      case 2
      then have "i = nat pe" by simp
      with 2 show ?thesis unfolding unfold ih using r1 a_pe by auto
    next
      case 3
      then have "nat (pe + 1) \<le> i \<and> i < nat r" by linarith
      then have "a ! i \<noteq> equals" using r4 by blast
      moreover have "a ! i = args ! i" using 3 a_other [of i] by simp
      ultimately show ?thesis unfolding unfold ih using 3 by simp
    next
      case 4
      then have i: "i = nat r" by simp
      have "a ! i = args ! i" using 4 r1 a_other [of i] by simp
      with r3 i have "args ! i = equals" by simp
      moreover have "pe < int i" using 4 r1 by simp
      moreover have "nat r - 1 = i - 1" using i by simp
      moreover have "a ! i = equals" using r3 i by simp
      moreover have "0 < r" using r1 "1.prems"(1) by simp
      ultimately show ?thesis unfolding unfold ih using 4 r1 prev [of i]
        by simp
    next
      case 5
      have "a ! i = args ! i" using 5 r1 a_other [of i] by simp
      moreover have "pe < int i" using 5 r1 by simp
      ultimately show ?thesis unfolding unfold ih using 5 r1 prev [of i] by simp
    qed
  qed
qed

lemma join_args_space: "join_args argv = [] \<or> last (join_args argv) = space"
  by (induction argv) auto

lemma first_space_found:
  assumes "join_args argv \<noteq> []"
  shows "str_find (join_args argv) space 0 \<noteq> -1"
proof
  assume none: "str_find (join_args argv) space 0 = -1"
  let ?s = "join_args argv"
  from assms have "length ?s - 1 < length ?s" by simp
  from str_find_none [OF none _ _ this] have "?s ! (length ?s - 1) \<noteq> space" by simp
  moreover from assms join_args_space [of argv] have "?s ! (length ?s - 1) = space"
    by (simp add: last_conv_nth)
  ultimately show False by simp
qed

lemma str_substr_nth:
  assumes "str_substr s b n = Some w" "k < length w"
  shows "w ! k = s ! (nat b + k)"
  using assms by (auto simp: str_substr_def split: if_splits)

lemma str_substr_length:
  assumes "str_substr s b n = Some w" 
  shows "nat b + length w \<le> length s"
  using assms by (auto simp: str_substr_def split: if_splits)

subsection \<open>The return of the word-boundary scan\<close>

lemma scan_words_returns:
  "scan_returns args p \<Longrightarrow> \<exists>pos'. scan_words args p pos = Some pos'"
proof (induction args p arbitrary: pos rule: scan_returns.induct)
  case (1 args p)
  show ?case
  proof (cases "p \<noteq> -1 \<and> p \<noteq> int (length args) - 1")
    case False
    then show ?thesis by (subst scan_words.simps) auto
  next
    case True
    show ?thesis
    proof (cases "args ! nat p = dquote")
      case q: True
      from "1.prems" True q have f: "str_find args dquote (p + 1) \<noteq> -1"
        and r: "scan_returns args (str_find_first_not_of args space (str_find args dquote (p + 1) + 1))"
        by (subst (asm) scan_returns.simps, simp split: if_splits)+
      from "1.IH"(1) [OF True q f r] True q show ?thesis
        by (subst scan_words.simps) simp
    next
      case q: False
      from "1.prems" True q have f: "str_find args space (p + 1) \<noteq> -1"
        and r: "scan_returns args (str_find_first_not_of args space (str_find args space (p + 1) + 1))"
        by (subst (asm) scan_returns.simps, simp split: if_splits)+
      from "1.IH"(2) [OF True q f r] True q show ?thesis
        by (subst scan_words.simps) simp
    qed
  qed
qed

lemma scan_words_never_returns:
  assumes first: "\<not> scan_returns args (str_find_first_not_of args space 0)"
    and here: "\<not> scan_returns args p"
  shows "scan_words args p pos = None"
proof (rule ccontr)
  let ?stuck = "\<lambda>a q. \<not> scan_returns a (str_find_first_not_of a space 0) \<and> \<not> scan_returns a q"
  assume "scan_words args p pos \<noteq> None"
  then obtain y where y: "scan_words args p pos = Some y" by auto
  have "\<not> ?stuck args p"
  proof (rule scan_words.raw_induct [where P = "\<lambda>a q c y. \<not> ?stuck a q", OF _ y])
    fix f :: "string \<Rightarrow> int \<Rightarrow> int list \<Rightarrow> int list option" and a q c y
    assume ih: "\<And>a q c y. f a q c = Some y \<Longrightarrow> \<not> ?stuck a q"
      and body: "(if q \<noteq> - 1 \<and> q \<noteq> int (length a) - 1
                  then if a ! nat q = dquote
                       then f a (str_find_first_not_of a space (str_find a dquote (q + 1) + 1))
                              (c @ [q + 1, str_find a dquote (q + 1)])
                       else f a (str_find_first_not_of a space (str_find a space (q + 1) + 1))
                              (c @ [q, str_find a space (q + 1)])
                  else Some c) = Some y"
    show "\<not> ?stuck a q"
    proof
      assume st: "?stuck a q"
      then have nr: "\<not> scan_returns a q" and nf: "\<not> scan_returns a (str_find_first_not_of a space 0)"
        by auto
      from nr have cont: "q \<noteq> -1 \<and> q \<noteq> int (length a) - 1"
        by (subst (asm) scan_returns.simps) (simp split: if_splits)
      show False
      proof (cases "a ! nat q = dquote")
        case True
        define e where "e = str_find a dquote (q + 1)"
        from body cont True have call: "f a (str_find_first_not_of a space (e + 1)) (c @ [q + 1, e]) = Some y"
          by (simp add: e_def)
        have "\<not> scan_returns a (str_find_first_not_of a space (e + 1))"
        proof (cases "e = -1")
          case True
          with nf show ?thesis by simp
        next
          case False
          with nr cont True show ?thesis
            by (subst (asm) scan_returns.simps) (simp add: e_def)
        qed
        with ih [OF call] nf show False by simp
      next
        case False
        define e where "e = str_find a space (q + 1)"
        from body cont False have call: "f a (str_find_first_not_of a space (e + 1)) (c @ [q, e]) = Some y"
          by (simp add: e_def)
        have "\<not> scan_returns a (str_find_first_not_of a space (e + 1))"
        proof (cases "e = -1")
          case True
          with nf show ?thesis by simp
        next
          case f: False
          with nr cont False show ?thesis
            by (subst (asm) scan_returns.simps) (simp add: e_def)
        qed
        with ih [OF call] nf show False by simp
      qed
    qed
  qed
  with assms show False by simp
qed

lemma tokenize_returns_iff:
  "(\<exists>pos. tokenize argv = Some (replaced_args argv, pos)) \<longleftrightarrow> quotes_closed argv"
proof
  assume "\<exists>pos. tokenize argv = Some (replaced_args argv, pos)"
  then show "quotes_closed argv"
    using scan_words_never_returns [of "replaced_args argv" "str_find_first_not_of (replaced_args argv) space 0" "[]"]
    by (auto simp: tokenize_def quotes_closed_def split: option.splits)
next
  assume "quotes_closed argv"
  from scan_words_returns [OF this [unfolded quotes_closed_def], of "[]"]
  show "\<exists>pos. tokenize argv = Some (replaced_args argv, pos)"
    by (auto simp: tokenize_def)
qed

subsection \<open>\<^verbatim>\<open>Set\<close>, the registry and the loop of \<^verbatim>\<open>argparse\<close>\<close>

lemma Set_empty [simp]: "Set L p [] st = Returns st"
  by (simp add: Set_def)

lemma Set_Returns:
  assumes "Set L p w st = Returns st'" "w \<noteq> []"
  shows "\<exists>x. spec_conversion L (type_tag p) w = Some x \<and>
             st' = (if xargs p = 1 \<or> type_tag p = BOOL then st(destination p \<mapsto> Scalar x)
                    else push_back st (destination p) x)"
  using assms
  by (cases "type_tag p")
     (auto simp: Set_def store_value_def Let_def split: if_splits option.splits list.splits)

lemma Set_frame:
  assumes "Set L p w st = Returns st'" "a \<noteq> destination p"
  shows "st' a = st a"
proof (cases "w = []")
  case True
  with assms show ?thesis by simp
next
  case False
  from Set_Returns [OF assms(1) False] assms(2) show ?thesis
    by (auto simp: push_back_def split: if_splits)
qed

lemma map_find_mark_set:
  "map_find (mark_set reg k) k' =
     (if k' = k then map_option (\<lambda>p. p\<lparr>set_flag := True\<rparr>) (map_find reg k) else map_find reg k')"
  by (induction reg) auto

lemma mark_set_idem [simp]: "mark_set (mark_set reg k) k = mark_set reg k"
  by (induction reg) auto

lemma interpret_words_append:
  assumes "even (length pre)"
  shows "interpret_words L args (pre @ rest) r par c reg st =
     (case interpret_words L args pre r par c reg st of
        Returns (returned, (r', par', c'), reg', st') \<Rightarrow>
          if returned then Returns (returned, (r', par', c'), reg', st')
          else interpret_words L args rest r' par' c' reg' st'
      | Exits m \<Rightarrow> Exits m
      | Throws \<Rightarrow> Throws)"
  using assms
proof (induction pre arbitrary: r par c reg st rule: induct_list012)
  case 1
  then show ?case by simp
next
  case (2 x)
  then show ?case by simp
next
  case (3 x y zs)
  then have ev: "even (length zs)" by simp
  note ih = "3.IH"(1) [OF ev]
  show ?case
    by (cases "loop_body L args x y r par c reg st") (auto simp: ih)
qed

lemma loop_body_option:
  assumes "str_substr args beg (en - beg) = Some key" "map_find reg key = Some p"
  shows "loop_body L args beg en True par c reg st =
           (if type_tag p \<noteq> BOOL then Returns (False, (False, Some key, xargs p), reg, st)
            else Returns (key = ''--help'', (True, Some key, c), reg, st(destination p \<mapsto> Scalar (VBool True))))"
  using assms by (simp add: loop_body_def Set_def tolower_def)

lemma loop_body_value:
  assumes "loop_body L args beg en False (Some k) c reg st = Returns (h, loc, reg', st')"
  shows "\<exists>w p. str_substr args beg (en - beg) = Some w \<and> map_find reg k = Some p \<and>
               Set L p w st = Returns st' \<and> h = False \<and>
               loc = (c - 1 = 0, Some k, c - 1) \<and> reg' = (if c - 1 \<le> 0 then mark_set reg k else reg)"
  using assms
  by (auto simp: loop_body_def split: option.splits outcome.splits if_splits)

lemma check_required_find:
  "check_required reg =
     (case find (\<lambda>p. required p \<and> \<not> set_flag p) (map snd reg) of
        None \<Rightarrow> Returns ()
      | Some p \<Rightarrow> Exits (missing_message p))"
  by (induction reg) (auto simp: missing_message_def)

lemma interpret_words_incomplete:
  assumes "interpret_words L args vals False (Some k) c reg st = Returns (h, loc, reg', st')"
    and "int (length vals) < 2 * c"
  shows "h = False \<and> reg' = reg \<and> fst loc = False"
  using assms
proof (induction vals arbitrary: c st rule: induct_list012)
  case 1
  then show ?case by auto
next
  case (2 x)
  then show ?case by auto
next
  case (3 x y zs)
  from "3.prems"(1) obtain h1 loc1 reg1 st1 where
    body: "loop_body L args x y False (Some k) c reg st = Returns (h1, loc1, reg1, st1)"
    by (cases "loop_body L args x y False (Some k) c reg st") auto
  from loop_body_value [OF body] "3.prems"(2)
  have h1: "h1 = False" and loc1: "loc1 = (False, Some k, c - 1)" and reg1: "reg1 = reg"
    by auto
  from "3.prems"(1) body h1 loc1 reg1
  have rest: "interpret_words L args zs False (Some k) (c - 1) reg st1 = Returns (h, loc, reg', st')"
    by simp
  from "3.prems"(2) have "int (length zs) < 2 * (c - 1)" by simp
  from "3.IH"(1) [OF rest this] show ?case .
qed

lemma mark_set_keys [simp]: "map fst (mark_set reg k) = map fst reg"
  by (induction reg) auto

lemma loop_body_keys:
  assumes "loop_body L args beg en r par c reg st = Returns (h, loc, reg', st')"
  shows "map fst reg' = map fst reg"
  using assms
  by (auto simp: loop_body_def split: option.splits outcome.splits if_splits)

lemma interpret_words_keys:
  assumes "interpret_words L args pos r par c reg st = Returns (h, loc, reg', st')"
  shows "map fst reg' = map fst reg"
  using assms
proof (induction pos arbitrary: r par c reg st rule: induct_list012)
  case 1
  then show ?case by auto
next
  case (2 x)
  then show ?case by auto
next
  case (3 x y zs)
  from "3.prems" obtain h1 r1 par1 c1 reg1 st1 where
    body: "loop_body L args x y r par c reg st = Returns (h1, (r1, par1, c1), reg1, st1)"
    by (cases "loop_body L args x y r par c reg st") auto
  note keys = loop_body_keys [OF body]
  show ?case
  proof (cases h1)
    case True
    with "3.prems" body keys show ?thesis by auto
  next
    case False
    with "3.prems" body
    have "interpret_words L args zs r1 par1 c1 reg1 st1 = Returns (h, loc, reg', st')" by simp
    from "3.IH"(1) [OF this] keys show ?thesis by simp
  qed
qed



lemma map_find_in_set: "map_find reg k = Some p \<Longrightarrow> p \<in> set (map snd reg)"
  by (induction reg) (auto split: if_splits)

lemma argparse_after_interpretation:
  assumes "tokenize argv = Some (args, pos)"
    and "interpret_words L args pos True None 1 reg st = Returns (False, loc, reg', st')"
  shows "argparse L argv reg st =
           Some (case find (\<lambda>p. required p \<and> \<not> set_flag p) (map snd reg') of
                   None \<Rightarrow> Returns (reg', st')
                 | Some p \<Rightarrow> Exits (missing_message p))"
  using assms by (simp add: argparse_def check_required_find split: option.splits)

lemma incomplete_option_left_unset:
  assumes pre: "interpret_words L args pre True None 1 reg st = Returns (False, (True, par, c), reg1, st1)"
    and ev: "even (length pre)"
    and word: "str_substr args beg (en - beg) = Some k"
    and k: "map_find reg1 k = Some p" "type_tag p \<noteq> BOOL"
    and few: "int (length vals) < 2 * xargs p"
    and run: "interpret_words L args (pre @ beg # en # vals) True None 1 reg st = Returns (h, loc, reg', st')"
  shows "\<not> h \<and> reg' = reg1"
proof -
  have "loop_body L args beg en True par c reg1 st1 = Returns (False, (False, Some k, xargs p), reg1, st1)"
    using loop_body_option [OF word k(1)] k(2) by simp
  with run pre have "interpret_words L args vals False (Some k) (xargs p) reg1 st1 = Returns (h, loc, reg', st')"
    by (simp add: interpret_words_append [OF ev])
  from interpret_words_incomplete [OF this few] show ?thesis by simp
qed

lemma loop_body_untouched:
  assumes body: "loop_body L args beg en r par c reg st = Returns (h, (r', par', c'), reg', st')"
    and word: "str_substr args beg (en - beg) \<noteq> Some k"
    and par: "par \<noteq> Some k"
  shows "map_find reg' k = map_find reg k \<and> par' \<noteq> Some k \<and>
         (\<forall>k' p'. map_find reg' k' = Some p' \<longrightarrow> (\<exists>q. map_find reg k' = Some q \<and> destination q = destination p')) \<and>
         ((\<forall>k' p'. map_find reg k' = Some p' \<and> k' \<noteq> k \<longrightarrow> destination p' \<noteq> d) \<longrightarrow> st' d = st d)"
proof (cases r)
  case True
  with body word show ?thesis
    using Set_frame [of L _ "''true''" st st' d] par
    by (auto simp: loop_body_def split: option.splits outcome.splits if_splits)
next
  case False
  with body obtain k0 where k0: "par = Some k0"
    by (cases par) (auto simp: loop_body_def split: option.splits)
  from body False k0
  have "loop_body L args beg en False (Some k0) c reg st = Returns (h, (r', par', c'), reg', st')"
    by simp
  from loop_body_value [OF this] obtain w p where
    w: "str_substr args beg (en - beg) = Some w" and p: "map_find reg k0 = Some p"
    and set: "Set L p w st = Returns st'" and loc: "(r', par', c') = (c - 1 = 0, Some k0, c - 1)"
    and reg': "reg' = (if c - 1 \<le> 0 then mark_set reg k0 else reg)" by blast
  from par k0 have ne: "k0 \<noteq> k" by simp
  have 1: "map_find reg' k = map_find reg k" using reg' ne by (simp add: map_find_mark_set)
  have 2: "par' \<noteq> Some k" using loc ne by simp
  have 3: "\<exists>q. map_find reg k' = Some q \<and> destination q = destination p'"
    if "map_find reg' k' = Some p'" for k' p'
    using that reg' by (auto simp: map_find_mark_set split: if_splits)
  have 4: "st' d = st d" if "\<forall>k' p'. map_find reg k' = Some p' \<and> k' \<noteq> k \<longrightarrow> destination p' \<noteq> d"
  proof -
    from that p ne have "d \<noteq> destination p" by blast
    with set show ?thesis by (rule Set_frame)
  qed
  from 1 2 3 4 show ?thesis by blast
qed

lemma interpret_words_untouched:
  assumes "interpret_words L args pos r par c reg st = Returns (h, loc, reg', st')"
    and "Some k \<notin> set (words_of args pos)"
    and "par \<noteq> Some k"
    and "\<forall>k' p'. map_find reg k' = Some p' \<and> k' \<noteq> k \<longrightarrow> destination p' \<noteq> d"
  shows "map_find reg' k = map_find reg k \<and> st' d = st d"
  using assms
proof (induction pos arbitrary: r par c reg st rule: induct_list012)
  case 1
  then show ?case by auto
next
  case (2 x)
  then show ?case by auto
next
  case (3 x y zs)
  from "3.prems"(1) obtain h1 r1 par1 c1 reg1 st1 where
    body: "loop_body L args x y r par c reg st = Returns (h1, (r1, par1, c1), reg1, st1)"
    by (cases "loop_body L args x y r par c reg st") auto
  from "3.prems"(2) have word: "str_substr args x (y - x) \<noteq> Some k"
    and rest_words: "Some k \<notin> set (words_of args zs)" by auto
  from loop_body_untouched [OF body word "3.prems"(3), of d] "3.prems"(4)
  have a: "map_find reg1 k = map_find reg k" and b: "par1 \<noteq> Some k"
    and c: "\<forall>k' p'. map_find reg1 k' = Some p' \<longrightarrow> (\<exists>q. map_find reg k' = Some q \<and> destination q = destination p')"
    and d: "st1 d = st d" by blast+
  from c "3.prems"(4) have own: "\<forall>k' p'. map_find reg1 k' = Some p' \<and> k' \<noteq> k \<longrightarrow> destination p' \<noteq> d"
    by metis
  show ?case
  proof (cases h1)
    case True
    with "3.prems"(1) body a d show ?thesis by auto
  next
    case False
    with "3.prems"(1) body
    have "interpret_words L args zs r1 par1 c1 reg1 st1 = Returns (h, loc, reg', st')" by simp
    from "3.IH"(1) [OF this rest_words b own] a d show ?thesis by simp
  qed
qed

lemma map_find_map_assign_same: "map_find (map_assign reg k p) k = Some p"
  by (induction reg) auto

lemma vector_at_push_back [simp]: "vector_at (push_back st a x) a = vector_at st a @ [x]"
  by (simp add: vector_at_def push_back_def)

lemma push_back_other: "b \<noteq> a \<Longrightarrow> push_back st a x b = st b"
  by (simp add: push_back_def)

lemma interpret_words_unbounded:
  assumes "interpret_words L args vals False (Some k) c reg st = Returns (h, loc, reg', st')"
    and "c \<le> 0" and "map_find reg k = Some p" and "type_tag p \<noteq> BOOL" and "xargs p \<noteq> 1"
  shows "\<not> h \<and> loc = (False, Some k, c - int (length (words_of args vals))) \<and>
         reg' = (if words_of args vals = [] then reg else mark_set reg k) \<and>
         (\<exists>vs. list_all2 (\<lambda>w x. spec_conversion L (type_tag p) w = Some x) (value_words args vals) vs \<and>
               vector_at st' (destination p) = vector_at st (destination p) @ vs) \<and>
         (\<forall>a. a \<noteq> destination p \<longrightarrow> st' a = st a)"
  using assms
proof (induction vals arbitrary: c reg st p rule: induct_list012)
  case 1
  then show ?case by (auto simp: value_words_def)
next
  case (2 x)
  then show ?case by (auto simp: value_words_def)
next
  case (3 x y zs)
  from "3.prems"(1) obtain h1 loc1 reg1 st1 where
    body: "loop_body L args x y False (Some k) c reg st = Returns (h1, loc1, reg1, st1)"
    by (cases "loop_body L args x y False (Some k) c reg st") auto
  from loop_body_value [OF body] "3.prems"(2,3) obtain w where
    w: "str_substr args x (y - x) = Some w" and set: "Set L p w st = Returns st1"
    and h1: "h1 = False" and loc1: "loc1 = (False, Some k, c - 1)" and reg1: "reg1 = mark_set reg k"
    by auto
  from "3.prems"(1) body h1 loc1 reg1
  have rest: "interpret_words L args zs False (Some k) (c - 1) (mark_set reg k) st1 = Returns (h, loc, reg', st')"
    by simp
  let ?p = "p\<lparr>set_flag := True\<rparr>"
  have p': "map_find (mark_set reg k) k = Some ?p" using "3.prems"(3) by (simp add: map_find_mark_set)
  from "3.IH"(1) [OF rest _ p'] "3.prems"(2,4,5)
  have ih: "\<not> h" "loc = (False, Some k, c - 1 - int (length (words_of args zs)))"
    "reg' = mark_set reg k"
    "\<exists>vs. list_all2 (\<lambda>w x. spec_conversion L (type_tag p) w = Some x) (value_words args zs) vs \<and>
          vector_at st' (destination p) = vector_at st1 (destination p) @ vs"
    "\<forall>a. a \<noteq> destination p \<longrightarrow> st' a = st1 a"
    by (auto split: if_splits)
  from ih(4) obtain vs where vs: "list_all2 (\<lambda>w x. spec_conversion L (type_tag p) w = Some x) (value_words args zs) vs"
    "vector_at st' (destination p) = vector_at st1 (destination p) @ vs" by blast
  have words: "value_words args (x # y # zs) = (if w = [] then [] else [w]) @ value_words args zs"
    using w by (simp add: value_words_def)
  have first: "\<exists>us. list_all2 (\<lambda>w x. spec_conversion L (type_tag p) w = Some x) (if w = [] then [] else [w]) us \<and>
                  vector_at st1 (destination p) = vector_at st (destination p) @ us \<and>
                  (\<forall>a. a \<noteq> destination p \<longrightarrow> st1 a = st a)"
  proof (cases "w = []")
    case True
    with set show ?thesis by simp
  next
    case False
    from Set_Returns [OF set False] "3.prems"(4,5) obtain v where
      "spec_conversion L (type_tag p) w = Some v" "st1 = push_back st (destination p) v" by auto
    with False show ?thesis by (auto simp: push_back_other intro!: exI [of _ "[v]"])
  qed
  then obtain us where us: "list_all2 (\<lambda>w x. spec_conversion L (type_tag p) w = Some x) (if w = [] then [] else [w]) us"
    "vector_at st1 (destination p) = vector_at st (destination p) @ us"
    "\<forall>a. a \<noteq> destination p \<longrightarrow> st1 a = st a" by blast
  have "list_all2 (\<lambda>w x. spec_conversion L (type_tag p) w = Some x) (value_words args (x # y # zs)) (us @ vs)"
    unfolding words using us(1) vs(1) by (rule list_all2_appendI)
  moreover have "vector_at st' (destination p) = vector_at st (destination p) @ (us @ vs)"
    using us(2) vs(2) by simp
  ultimately have vec: "\<exists>vs. list_all2 (\<lambda>w x. spec_conversion L (type_tag p) w = Some x) (value_words args (x # y # zs)) vs \<and>
               vector_at st' (destination p) = vector_at st (destination p) @ vs" by blast
  from ih(1,2,3,5) us(3) vec show ?case by simp
qed

subsection \<open>The registry in key order\<close>

lemma addp_registered:
  assumes "addp_xargs_default_required L set0 ty dest xa dv rq lp hp reg st = Returns (reg', st')"
    and "registered reg"
  shows "registered reg'"
proof -
  from assms(1) obtain p where "reg' = map_assign reg lp p" "longPhrase p = lp"
    by (auto simp: addp_xargs_default_required_def register_param_def Param_ctor_def Let_def
             split: outcome.splits if_splits)
  with assms(2) show ?thesis by (auto intro: registered.assign)
qed

lemma map_assign_keys: "set (map fst (map_assign reg k p)) = insert k (set (map fst reg))"
proof (induction reg)
  case Nil
  then show ?case by simp
next
  case (Cons e reg)
  obtain k0 q where e: "e = (k0, q)" by (cases e)
  show ?case
  proof (cases "k < k0 \<or> k = k0")
    case True
    then show ?thesis unfolding e by auto
  next
    case False
    then show ?thesis unfolding e using Cons.IH by auto
  qed
qed

lemma map_assign_sorted:
  "sorted_wrt (<) (map fst reg) \<Longrightarrow> sorted_wrt (<) (map fst (map_assign reg k p))"
proof (induction reg)
  case Nil
  then show ?case by simp
next
  case (Cons e reg)
  obtain k0 q where e: "e = (k0, q)" by (cases e)
  from Cons.prems e have tail: "sorted_wrt (<) (map fst reg)" and low: "\<forall>x \<in> set (map fst reg). k0 < x"
    by auto
  consider "k < k0" | "k = k0" | "k0 < k" by (rule linorder_cases)
  then show ?case
  proof cases
    case 1
    with e tail low show ?thesis by auto
  next
    case 2
    with e tail low show ?thesis by auto
  next
    case 3
    then have "\<not> k < k0" "k \<noteq> k0" by auto
    moreover from low 3 have "\<forall>x \<in> set (map fst (map_assign reg k p)). k0 < x"
      unfolding map_assign_keys by auto
    ultimately show ?thesis using e Cons.IH [OF tail] by simp
  qed
qed

lemma map_assign_phrases:
  assumes "\<forall>(k', q) \<in> set reg. longPhrase q = k'" "longPhrase p = k"
  shows "\<forall>(k', q) \<in> set (map_assign reg k p). longPhrase q = k'"
  using assms by (induction reg) (auto split: if_splits)

lemma registered_sorted:
  "registered reg \<Longrightarrow> sorted_wrt (<) (map fst reg) \<and> (\<forall>(k, p) \<in> set reg. longPhrase p = k)"
proof (induction rule: registered.induct)
  case none
  then show ?case by simp
next
  case (assign reg p lp)
  then show ?case using map_assign_sorted [of reg lp p] map_assign_phrases [of reg p lp] by blast
qed

lemma details_entry_spec_block: "details_entry p = spec_block p"
  by (simp add: details_entry_def spec_block_def spec_arity_line_def spec_default_line_def not_le)

lemma argdetails_loop_concat:
  "argdetails_loop reg details = details @ concat (map (\<lambda>(k, p). details_entry p) reg)"
  by (induction reg arbitrary: details) auto

subsection \<open>The equals sign\<close>

text \<open>
  Claim C1. The header of \<^verbatim>\<open>params.h\<close> promises "Supports equals sign or space:
  1) --seed 3   2) --seed=3". The replacement loop starts with \<^verbatim>\<open>args.find(' ', 0)\<close> and
  looks for equals signs only from there on, so an equals sign before the first space of
  the joined string, that is, in the first argument word, is never replaced. With
  \<^verbatim>\<open>--seed\<close> registered as an integer option of arity 1: the invocation \<^verbatim>\<open>--seed 3\<close> binds
  3; for the invocation \<^verbatim>\<open>--seed=3\<close> the string is left as it is and the call exits with
  "Unrecognized option"; after another word the same token is read as the claim says.
\<close>

theorem equals_in_first_word_kept:
  "argparse sample_lib [''--seed'', ''3''] [(''--seed'', seed_param)] Map.empty =
     Some (Returns ([(''--seed'', seed_param\<lparr>set_flag := True\<rparr>)], [0 \<mapsto> Scalar (VInt 3)]))
   \<and> replaced_args [''--seed=3''] = ''--seed=3 ''
   \<and> argparse sample_lib [''--seed=3''] [(''--seed'', seed_param)] Map.empty =
     Some (Exits (''Unrecognized option '' @ [squote] @ ''--seed=3'' @ [squote] @ '' in invocation.''))
   \<and> argparse sample_lib [''--name'', ''x'', ''--seed=3''] [(''--name'', name_param), (''--seed'', seed_param)] Map.empty =
     Some (Returns ([(''--name'', name_param\<lparr>set_flag := True\<rparr>), (''--seed'', seed_param\<lparr>set_flag := True\<rparr>)],
                    [1 \<mapsto> Scalar (VString ''x''), 0 \<mapsto> Scalar (VInt 3)]))"
  by (simp add: eval_defs)

text \<open>
  Claim C10. The replacement of equals signs works on the whole joined string, before
  the scan looks at quotes. For every word the loop extracts from the working string
  (\<open>args\<close>, at \<open>beg\<close> with length \<open>en - beg\<close>) that starts after the first space of
  the joined string, quoted or not: a character of the word is a space where the joined
  string has an equals sign not preceded by a backslash, and is the character of the
  joined string everywhere else. So \<^verbatim>\<open>--name "a=b"\<close> binds \<^verbatim>\<open>a b\<close>.
\<close>

theorem equals_in_later_words_replaced:
  assumes tok: "tokenize argv = Some (args, pos)"
    and word: "str_substr args beg (en - beg) = Some w"
    and later: "str_find (join_args argv) space 0 < beg"
    and k: "k < length w"
  shows "w ! k =
           (if join_args argv ! (nat beg + k) = equals \<and> join_args argv ! (nat beg + k - 1) \<noteq> backslash
            then space else join_args argv ! (nat beg + k))"
proof -
  let ?s = "join_args argv"
  let ?p = "str_find ?s space 0"
  from tok have args: "args = replace_equals ?s ?p"
    by (auto simp: tokenize_def replaced_args_def split: option.splits)
  from str_substr_length [OF word] k have i: "nat beg + k < length args" by simp
  then have i': "nat beg + k < length ?s" by (simp add: args)
  then have "?s \<noteq> []" by auto
  then have p: "?p \<noteq> -1" by (rule first_space_found)
  from str_find_found [OF refl p]
  have p0: "0 \<le> ?p" "?p < int (length ?s)" "?s ! nat ?p = space" by auto
  from later have gt: "?p < int (nat beg + k)" by simp
  have "w ! k = args ! (nat beg + k)" using word k by (rule str_substr_nth)
  also have "\<dots> = (if ?s ! (nat beg + k) = equals \<and> ?s ! (nat beg + k - 1) \<noteq> backslash
                  then space else ?s ! (nat beg + k))"
    unfolding args using replace_equals_nth [OF p0(1) p0(2) _ i'] p0(3) gt by simp
  finally show ?thesis .
qed

theorem equals_in_later_words_replaced_witness:
  "tokenize [''--name'', [dquote] @ ''a=b'' @ [dquote]] = Some (''--name '' @ [dquote] @ ''a b'' @ [dquote] @ '' '', [0, 6, 8, 11])
   \<and> str_substr (''--name '' @ [dquote] @ ''a b'' @ [dquote] @ '' '') 8 (11 - 8) = Some ''a b''
   \<and> str_find (join_args [''--name'', [dquote] @ ''a=b'' @ [dquote]]) space 0 < 8
   \<and> ''a b'' ! 1 = space
   \<and> argparse sample_lib [''--name'', [dquote] @ ''a=b'' @ [dquote]] [(''--name'', name_param)] Map.empty
       = Some (Returns ([(''--name'', name_param\<lparr>set_flag := True\<rparr>)], [1 \<mapsto> Scalar (VString ''a b'')]))"
proof -
  have tok: "tokenize [''--name'', [dquote] @ ''a=b'' @ [dquote]] = Some (''--name '' @ [dquote] @ ''a b'' @ [dquote] @ '' '', [0, 6, 8, 11])"
    by (simp add: eval_defs)
  have word: "str_substr (''--name '' @ [dquote] @ ''a b'' @ [dquote] @ '' '') 8 (11 - 8) = Some ''a b''"
    by (simp add: eval_defs)
  have later: "str_find (join_args [''--name'', [dquote] @ ''a=b'' @ [dquote]]) space 0 < 8"
    by (simp add: eval_defs)
  have k: "1 < length ''a b''" by simp
  from equals_in_later_words_replaced [OF tok word later k]
  have "''a b'' ! 1 = space" by (simp add: eval_defs)
  moreover have "argparse sample_lib [''--name'', [dquote] @ ''a=b'' @ [dquote]] [(''--name'', name_param)] Map.empty
       = Some (Returns ([(''--name'', name_param\<lparr>set_flag := True\<rparr>)], [1 \<mapsto> Scalar (VString ''a b'')]))"
    by (simp add: eval_defs)
  ultimately show ?thesis using tok word later by simp
qed

subsection \<open>Quoted words\<close>

text \<open>
  Claim C2. The scan looks for the end of a quoted word with \<^verbatim>\<open>args.find('"', location+1)\<close>
  under the comment "find end of string (not \", but ")": the search does not look at the
  character before the quote it finds, so a quote preceded by a backslash ends the word.
  For the second argument word \<^verbatim>\<open>"a\"b"\<close> the extracted word is \<open>a\<close> followed by the
  backslash, the rest \<^verbatim>\<open>b"\<close> is read as the next option, and the call exits with
  "Unrecognized option".
\<close>

theorem escaped_quote_ends_word:
  "tokenize [''--name'', [dquote] @ ''a'' @ [backslash, dquote] @ ''b'' @ [dquote]] =
     Some (''--name '' @ [dquote] @ ''a'' @ [backslash, dquote] @ ''b'' @ [dquote] @ '' '', [0, 6, 8, 10, 11, 13])
   \<and> str_substr (''--name '' @ [dquote] @ ''a'' @ [backslash, dquote] @ ''b'' @ [dquote] @ '' '') 8 (10 - 8) = Some (''a'' @ [backslash])
   \<and> argparse sample_lib [''--name'', [dquote] @ ''a'' @ [backslash, dquote] @ ''b'' @ [dquote]]
         [(''--name'', name_param)] Map.empty =
     Some (Exits (''Unrecognized option '' @ [squote] @ ''b'' @ [dquote] @ [squote] @ '' in invocation.''))"
  by (simp add: eval_defs)

subsection \<open>Conversion failures\<close>

text \<open>
  Claim C3. \<^verbatim>\<open>Set\<close> wraps the conversion in \<^verbatim>\<open>try\<close> and prints the diagnostic only in the
  branch for \<open>xargs \<noteq> 1\<close>. For an option of arity 1 the exception of \<^verbatim>\<open>stoi\<close> leaves
  \<^verbatim>\<open>Set\<close> and \<^verbatim>\<open>argparse\<close> uncaught, and nothing is written; the same word for an option
  of arity 3 gives the diagnostic and \<^verbatim>\<open>exit(1)\<close>.
\<close>

theorem scalar_conversion_failure_uncaught:
  "stoi sample_lib ''abc'' = None
   \<and> Set sample_lib seed_param ''abc'' st = Throws
   \<and> argparse sample_lib [''--seed'', ''abc''] [(''--seed'', seed_param)] Map.empty = Some Throws
   \<and> argparse sample_lib [''--quantity'', ''abc''] [(''--quantity'', quantity_param)] Map.empty =
       Some (Exits (''Error in argument (expected type INT): abc'' @ [newline] @
                    ''Options which expect infinite arguments should be last.'' @ [newline]))"
  by (simp add: eval_defs)

subsection \<open>Required options\<close>

text \<open>
  Claim C4, amended. Let the scan return \<open>pos\<close>. (1) When the loop over the words ends
  without the \<^verbatim>\<open>return\<close> of \<^verbatim>\<open>--help\<close> and without an error, leaving the registry
  \<open>reg'\<close>, then \<open>reg'\<close> has the keys of the registry before the call, in the same order
  (ascending for a registry built by \<^verbatim>\<open>addp\<close>, lemma \<open>registered_sorted\<close>), and
  \<^verbatim>\<open>argparse\<close> returns normally if and only if no descriptor of \<open>reg'\<close> has \<open>required\<close>
  true and \<open>set\<close> false; otherwise it exits with the one message that names the first
  such descriptor in that order (\<open>find\<close> returns the first), and reports no other. (2) When the last option of the invocation is a non-boolean option
  \<open>k\<close>, required and with \<open>set\<close> false at that point, and fewer words follow it than
  its arity, then the loop never marks it: if the loop ends without an error, \<open>k\<close> is
  still as it was and \<^verbatim>\<open>argparse\<close> exits with the message of the closing check; in no
  case does \<^verbatim>\<open>argparse\<close> return normally.
\<close>

theorem required_options_checked:
  assumes tok: "tokenize argv = Some (args, pos)"
  shows "(\<forall>loc reg' st'.
            interpret_words L args pos True None 1 reg st = Returns (False, loc, reg', st') \<longrightarrow>
            map fst reg' = map fst reg \<and>
            argparse L argv reg st =
              Some (case find (\<lambda>p. required p \<and> \<not> set_flag p) (map snd reg') of
                      None \<Rightarrow> Returns (reg', st')
                    | Some p \<Rightarrow> Exits (missing_message p)))
       \<and> (\<forall>pre beg en vals par c reg1 st1 k p.
            pos = pre @ beg # en # vals \<and> even (length pre) \<and>
            interpret_words L args pre True None 1 reg st = Returns (False, (True, par, c), reg1, st1) \<and>
            str_substr args beg (en - beg) = Some k \<and> map_find reg1 k = Some p \<and>
            type_tag p \<noteq> BOOL \<and> required p \<and> \<not> set_flag p \<and> int (length vals) < 2 * xargs p \<longrightarrow>
            (\<forall>x. argparse L argv reg st \<noteq> Some (Returns x)) \<and>
            (\<forall>h loc reg' st'.
               interpret_words L args pos True None 1 reg st = Returns (h, loc, reg', st') \<longrightarrow>
               \<not> h \<and> map_find reg' k = Some p \<and>
               (\<exists>q. required q \<and> \<not> set_flag q \<and> argparse L argv reg st = Some (Exits (missing_message q)))))"
proof (intro conjI allI impI)
  fix loc reg' st'
  assume run: "interpret_words L args pos True None 1 reg st = Returns (False, loc, reg', st')"
  then show "map fst reg' = map fst reg" by (rule interpret_words_keys)
  from tok run show "argparse L argv reg st =
              Some (case find (\<lambda>p. required p \<and> \<not> set_flag p) (map snd reg') of
                      None \<Rightarrow> Returns (reg', st')
                    | Some p \<Rightarrow> Exits (missing_message p))"
    by (rule argparse_after_interpretation)
next
  fix pre beg en vals par c reg1 st1 k p
  assume a: "pos = pre @ beg # en # vals \<and> even (length pre) \<and>
            interpret_words L args pre True None 1 reg st = Returns (False, (True, par, c), reg1, st1) \<and>
            str_substr args beg (en - beg) = Some k \<and> map_find reg1 k = Some p \<and>
            type_tag p \<noteq> BOOL \<and> required p \<and> \<not> set_flag p \<and> int (length vals) < 2 * xargs p"
  have unset: "\<not> h \<and> reg' = reg1"
    if "interpret_words L args pos True None 1 reg st = Returns (h, loc, reg', st')" for h loc reg' st'
    using incomplete_option_left_unset [of L args pre reg st par c reg1 st1 beg en k p vals h loc reg' st'] a that
    by simp
  have exits: "\<exists>q. required q \<and> \<not> set_flag q \<and> argparse L argv reg st = Some (Exits (missing_message q))"
    if run: "interpret_words L args pos True None 1 reg st = Returns (h, loc, reg', st')" for h loc reg' st'
  proof -
    from unset [OF run] have h: "\<not> h" and r: "reg' = reg1" by auto
    from a have "map_find reg1 k = Some p" by simp
    from map_find_in_set [OF this] r have "p \<in> set (map snd reg')" by simp
    with a obtain q where q: "find (\<lambda>p. required p \<and> \<not> set_flag p) (map snd reg') = Some q"
      by (cases "find (\<lambda>p. required p \<and> \<not> set_flag p) (map snd reg')") (auto simp: find_None_iff)
    then have "required q \<and> \<not> set_flag q" by (auto simp: find_Some_iff)
    moreover from run h
    have "interpret_words L args pos True None 1 reg st = Returns (False, loc, reg', st')" by simp
    from argparse_after_interpretation [OF tok this] q
    have "argparse L argv reg st = Some (Exits (missing_message q))" by simp
    ultimately show ?thesis by blast
  qed
  show "\<And>x. argparse L argv reg st \<noteq> Some (Returns x)"
  proof
    fix x
    assume ret: "argparse L argv reg st = Some (Returns x)"
    with tok obtain h loc reg' st' where
      "interpret_words L args pos True None 1 reg st = Returns (h, loc, reg', st')"
      by (cases "interpret_words L args pos True None 1 reg st")
         (auto simp: argparse_def)
    from exits [OF this] ret show False by auto
  qed
  show "\<And>h loc reg' st'. interpret_words L args pos True None 1 reg st = Returns (h, loc, reg', st') \<Longrightarrow> \<not> h"
    using unset by blast
  show "\<And>h loc reg' st'. interpret_words L args pos True None 1 reg st = Returns (h, loc, reg', st') \<Longrightarrow>
          map_find reg' k = Some p"
    using unset a by blast
  show "\<And>h loc reg' st'. interpret_words L args pos True None 1 reg st = Returns (h, loc, reg', st') \<Longrightarrow>
          \<exists>q. required q \<and> \<not> set_flag q \<and> argparse L argv reg st = Some (Exits (missing_message q))"
    using exits by blast
qed

theorem required_options_checked_witness:
  "tokenize [''--iterations'', ''5'', ''--quantity'', ''1'', ''2''] =
     Some (''--iterations 5 --quantity 1 2 '', [0, 12, 13, 14] @ 15 # 25 # [26, 27, 28, 29])
   \<and> interpret_words sample_lib ''--iterations 5 --quantity 1 2 '' [0, 12, 13, 14] True None 1
         [(''--iterations'', iterations_param), (''--quantity'', quantity_param)] Map.empty =
       Returns (False, (True, Some ''--iterations'', 0),
                [(''--iterations'', iterations_param\<lparr>set_flag := True\<rparr>), (''--quantity'', quantity_param)],
                [5 \<mapsto> Scalar (VInt 5)])
   \<and> str_substr ''--iterations 5 --quantity 1 2 '' 15 (25 - 15) = Some ''--quantity''
   \<and> int (length [26, 27, 28, 29 :: int]) < 2 * xargs quantity_param
   \<and> argparse sample_lib [''--iterations'', ''5'', ''--quantity'', ''1'', ''2'']
         [(''--iterations'', iterations_param), (''--quantity'', quantity_param)] Map.empty =
       Some (Exits (missing_message quantity_param))
   \<and> (\<forall>x. argparse sample_lib [''--iterations'', ''5'', ''--quantity'', ''1'', ''2'']
         [(''--iterations'', iterations_param), (''--quantity'', quantity_param)] Map.empty \<noteq> Some (Returns x))"
proof -
  let ?argv = "[''--iterations'', ''5'', ''--quantity'', ''1'', ''2'']"
  let ?args = "''--iterations 5 --quantity 1 2 ''"
  let ?reg = "[(''--iterations'', iterations_param), (''--quantity'', quantity_param)]"
  let ?reg1 = "[(''--iterations'', iterations_param\<lparr>set_flag := True\<rparr>), (''--quantity'', quantity_param)]"
  have tok: "tokenize ?argv = Some (?args, [0, 12, 13, 14] @ 15 # 25 # [26, 27, 28, 29])"
    by (simp add: eval_defs)
  have pre: "interpret_words sample_lib ?args [0, 12, 13, 14] True None 1 ?reg Map.empty =
       Returns (False, (True, Some ''--iterations'', 0), ?reg1, [5 \<mapsto> Scalar (VInt 5)])"
    by (simp add: eval_defs)
  have word: "str_substr ?args 15 (25 - 15) = Some ''--quantity''"
    by (simp add: eval_defs)
  have few: "int (length [26, 27, 28, 29 :: int]) < 2 * xargs quantity_param"
    by (simp add: eval_defs)
  have run: "interpret_words sample_lib ?args ([0, 12, 13, 14] @ 15 # 25 # [26, 27, 28, 29]) True None 1 ?reg Map.empty =
       Returns (False, (False, Some ''--quantity'', 1), ?reg1,
                [5 \<mapsto> Scalar (VInt 5), 3 \<mapsto> Vector [VInt 1, VInt 2]])"
    by (simp add: eval_defs)
  note inst = required_options_checked [OF tok, of sample_lib ?reg Map.empty]
  from inst [THEN conjunct1, rule_format, OF run]
  have exits: "argparse sample_lib ?argv ?reg Map.empty = Some (Exits (missing_message quantity_param))"
    by (simp add: eval_defs)
  have "map_find ?reg1 ''--quantity'' = Some quantity_param \<and> type_tag quantity_param \<noteq> BOOL \<and>
        required quantity_param \<and> \<not> set_flag quantity_param" by (simp add: eval_defs)
  with inst [THEN conjunct2, rule_format, of "[0, 12, 13, 14]" 15 25 "[26, 27, 28, 29]" "Some ''--iterations''" 0
      ?reg1 "[5 \<mapsto> Scalar (VInt 5)]" "''--quantity''" quantity_param] pre word few
  have "\<forall>x. argparse sample_lib ?argv ?reg Map.empty \<noteq> Some (Returns x)"
    by simp
  with tok pre word few exits show ?thesis by simp
qed

text \<open>
  The claim as it was stated fails where two required options are missing: the call
  exits at the first in key order, and no message names the second.
\<close>

theorem second_missing_option_unreported:
  "map_find [(''--iterations'', iterations_param), (''--seed'', seed_param)] ''--seed'' = Some seed_param
   \<and> required seed_param \<and> \<not> set_flag seed_param
   \<and> argparse sample_lib [] [(''--iterations'', iterations_param), (''--seed'', seed_param)] Map.empty =
       Some (Exits (''Option '' @ [squote] @ ''--iterations'' @ [squote] @
                    '' required, and not found, or incomplete.'' @ [newline]))
   \<and> argparse sample_lib [] [(''--iterations'', iterations_param), (''--seed'', seed_param)] Map.empty \<noteq>
       Some (Exits (missing_message seed_param))"
  by (simp add: eval_defs)

subsection \<open>\<^verbatim>\<open>--help\<close>\<close>




subsection \<open>Registration of a boolean option\<close>

text \<open>
  Every overload of \<^verbatim>\<open>addp\<close> is the most general one,
  \<open>addp_xargs_default_required\<close>, at particular arguments.
\<close>

lemma addp_overloads:
  "addp_help L set0 ty dest = addp_xargs_default_required L set0 ty dest 1 [] False ''--help'' ''Prints this help message.''"
  "addp L set0 ty dest lp hp = addp_xargs_default_required L set0 ty dest 1 [] True lp hp"
  "addp_xargs L set0 ty dest xa lp hp = addp_xargs_default_required L set0 ty dest xa [] True lp hp"
  "addp_default L set0 ty dest dv lp hp = addp_xargs_default_required L set0 ty dest 1 dv False lp hp"
  "addp_xargs_default L set0 ty dest xa dv lp hp = addp_xargs_default_required L set0 ty dest xa dv False lp hp"
  "addp_required L set0 ty dest rq lp hp = addp_xargs_default_required L set0 ty dest 1 [] rq lp hp"
  "addp_xargs_required L set0 ty dest xa rq lp hp = addp_xargs_default_required L set0 ty dest xa [] rq lp hp"
  "addp_default_required L set0 ty dest dv rq lp hp = addp_xargs_default_required L set0 ty dest 1 dv rq lp hp"
  by (intro ext; simp add: addp_help_def addp_def addp_xargs_def addp_default_def addp_xargs_default_def
        addp_required_def addp_xargs_required_def addp_default_required_def
        addp_xargs_default_required_def)+

text \<open>
  Claim C9. Registering an option of type \<^verbatim>\<open>BOOL\<close> (stated for the most general overload,
  whatever \<open>required\<close> argument \<open>rq\<close> and arity \<open>xa\<close> the caller passes): the descriptor
  entered in the registry has \<open>required\<close> false; the destination is written during the
  registration, with false when the default string is empty or is \<^verbatim>\<open>false\<close> in any
  capitalisation, with true when it is \<^verbatim>\<open>true\<close> in any capitalisation; every other default
  string ends the registration itself with the error message and \<^verbatim>\<open>exit(1)\<close>.
\<close>

theorem boolean_registration:
  "addp_xargs_default_required L set0 BOOL dest xa dv rq lp hp reg st =
     (if dv = [] \<or> map tolower dv = ''false'' then
        Returns (map_assign reg lp
                   \<lparr>type_tag = BOOL, destination = dest, longPhrase = lp, helpPhrase = hp, xargs = xa,
                    required = False, set_flag = True, defaultValue = dv\<rparr>,
                 st(dest \<mapsto> Scalar (VBool False)))
      else if map tolower dv = ''true'' then
        Returns (map_assign reg lp
                   \<lparr>type_tag = BOOL, destination = dest, longPhrase = lp, helpPhrase = hp, xargs = xa,
                    required = False, set_flag = True, defaultValue = dv\<rparr>,
                 st(dest \<mapsto> Scalar (VBool True)))
      else Exits (''Unrecognized default value for boolean option: '' @ [squote] @ c_str dv @ [squote, newline]))"
  by (simp add: addp_xargs_default_required_def register_param_def Param_ctor_def Set_def Let_def tolower_def)

subsection \<open>Defaults\<close>

text \<open>
  Claim C6, amended. Register a non-boolean option \<open>k\<close> of arity 1 with a non-empty default
  string \<open>dv\<close> (the overload with a default and a \<open>required\<close> flag; the overload with
  a default alone is its instance). If the registration returns, the default converts
  under the per-type conversion and the destination holds the converted value from then
  on (\<open>st1\<close>). Parse later, with a registry that still holds this entry under \<open>k\<close>, a
  store that still holds the value, and no other descriptor bound to the same
  destination: if no word of the invocation is \<open>k\<close> and the parse returns normally,
  the destination still holds the converted default and the entry of \<open>k\<close> is the
  descriptor the registration made, untouched.
\<close>

theorem default_survives_parse:
  assumes registration: "addp_default_required L set0 ty dest dv rq k hp reg0 st0 = Returns (reg1, st1)"
    and ty: "ty \<noteq> BOOL" and dv: "dv \<noteq> []"
    and held: "map_find reg k = map_find reg1 k" "st dest = st1 dest"
    and own: "\<forall>k' p'. map_find reg k' = Some p' \<and> k' \<noteq> k \<longrightarrow> destination p' \<noteq> dest"
    and tok: "tokenize argv = Some (args, pos)"
    and absent: "Some k \<notin> set (words_of args pos)"
    and parse: "argparse L argv reg st = Some (Returns (reg', st'))"
  shows "\<exists>v. spec_conversion L ty dv = Some v \<and> st1 dest = Some (Scalar v) \<and> st' dest = Some (Scalar v) \<and>
             map_find reg' k = map_find reg1 k \<and>
             map_find reg1 k = Some \<lparr>type_tag = ty, destination = dest, longPhrase = k, helpPhrase = hp,
                                    xargs = 1, required = rq, set_flag = set0, defaultValue = dv\<rparr>"
proof -
  let ?p = "\<lparr>type_tag = ty, destination = dest, longPhrase = k, helpPhrase = hp,
             xargs = 1, required = rq, set_flag = set0, defaultValue = dv\<rparr>"
  from registration ty have set: "Set L ?p dv st0 = Returns st1" and reg1: "reg1 = map_assign reg0 k ?p"
    by (auto simp: addp_default_required_def register_param_def Param_ctor_def Let_def split: outcome.splits)
  from Set_Returns [OF set dv] ty obtain v where
    v: "spec_conversion L ty dv = Some v" and st1: "st1 = st0(dest \<mapsto> Scalar v)" by auto
  have entry: "map_find reg1 k = Some ?p" unfolding reg1 by (rule map_find_map_assign_same)
  from parse tok obtain h loc where
    run: "interpret_words L args pos True None 1 reg st = Returns (h, loc, reg', st')"
    by (cases "interpret_words L args pos True None 1 reg st")
       (auto simp: argparse_def split: if_splits outcome.splits)
  from interpret_words_untouched [OF run absent _ own]
  have "map_find reg' k = map_find reg k" "st' dest = st dest" by simp_all
  with held v st1 entry show ?thesis by simp
qed

theorem default_survives_parse_witness:
  "addp_default_required sample_lib False STRING 1 ''simulation'' False ''--name''
       ''The name for this simulation run.'' [(''--seed'', seed_param)] Map.empty =
     Returns ([(''--name'', name_param), (''--seed'', seed_param)], [1 \<mapsto> Scalar (VString ''simulation'')])
   \<and> tokenize [''--seed'', ''3''] = Some (''--seed 3 '', [0, 6, 7, 8])
   \<and> words_of ''--seed 3 '' [0, 6, 7, 8] = [Some ''--seed'', Some ''3'']
   \<and> argparse sample_lib [''--seed'', ''3''] [(''--name'', name_param), (''--seed'', seed_param)]
         [1 \<mapsto> Scalar (VString ''simulation'')] =
       Some (Returns ([(''--name'', name_param), (''--seed'', seed_param\<lparr>set_flag := True\<rparr>)],
                      [1 \<mapsto> Scalar (VString ''simulation''), 0 \<mapsto> Scalar (VInt 3)]))
   \<and> (\<exists>v. spec_conversion sample_lib STRING ''simulation'' = Some v \<and>
            ([1 \<mapsto> Scalar (VString ''simulation''), 0 \<mapsto> Scalar (VInt 3)] :: (rat, rat) store) 1 = Some (Scalar v))"
proof -
  let ?reg = "[(''--name'', name_param), (''--seed'', seed_param)]"
  let ?st = "[1 \<mapsto> Scalar (VString ''simulation'')] :: (rat, rat) store"
  let ?st' = "[1 \<mapsto> Scalar (VString ''simulation''), 0 \<mapsto> Scalar (VInt 3)] :: (rat, rat) store"
  have registration: "addp_default_required sample_lib False STRING 1 ''simulation'' False ''--name''
       ''The name for this simulation run.'' [(''--seed'', seed_param)] Map.empty = Returns (?reg, ?st)"
    by (simp add: addp_default_required_def register_param_def Param_ctor_def eval_defs)
  have tok: "tokenize [''--seed'', ''3''] = Some (''--seed 3 '', [0, 6, 7, 8])"
    by (simp add: eval_defs)
  have wds: "words_of ''--seed 3 '' [0, 6, 7, 8] = [Some ''--seed'', Some ''3'']"
    by (simp add: eval_defs)
  have parse: "argparse sample_lib [''--seed'', ''3''] ?reg ?st =
       Some (Returns ([(''--name'', name_param), (''--seed'', seed_param\<lparr>set_flag := True\<rparr>)], ?st'))"
    by (simp add: eval_defs)
  have own: "\<forall>k' p'. map_find ?reg k' = Some p' \<and> k' \<noteq> ''--name'' \<longrightarrow> destination p' \<noteq> 1"
    by (simp add: eval_defs)
  have absent: "Some ''--name'' \<notin> set (words_of ''--seed 3 '' [0, 6, 7, 8])"
    unfolding wds by simp
  from default_survives_parse [OF registration _ _ refl refl own tok absent parse]
  have "\<exists>v. spec_conversion sample_lib STRING ''simulation'' = Some v \<and> ?st' 1 = Some (Scalar v)"
    by auto
  with registration tok wds parse show ?thesis by blast
qed

text \<open>
  The condition on the destination is needed. Register \<^verbatim>\<open>--seed\<close> and \<^verbatim>\<open>-s\<close> on the
  same \<^verbatim>\<open>int\<close> variable, each with the default \<^verbatim>\<open>1\<close>. The invocation \<^verbatim>\<open>-s 3\<close> parses
  normally, the word \<^verbatim>\<open>--seed\<close> does not occur in it and the descriptor of \<^verbatim>\<open>--seed\<close>
  is untouched, but the destination holds 3, not the converted default.
\<close>

theorem shared_destination_overwritten:
  "addp_default_required sample_lib False INT_t 0 ''1'' False ''--seed'' ''The seed.'' [] Map.empty =
     Returns ([(''--seed'', \<lparr>type_tag = INT_t, destination = 0, longPhrase = ''--seed'',
                  helpPhrase = ''The seed.'', xargs = 1, required = False, set_flag = False,
                  defaultValue = ''1''\<rparr>)],
              [0 \<mapsto> Scalar (VInt 1)])
   \<and> spec_conversion sample_lib INT_t ''1'' = Some (VInt 1)
   \<and> addp_default_required sample_lib False INT_t 0 ''1'' False ''-s'' ''The seed, for short.''
       [(''--seed'', \<lparr>type_tag = INT_t, destination = 0, longPhrase = ''--seed'',
                  helpPhrase = ''The seed.'', xargs = 1, required = False, set_flag = False,
                  defaultValue = ''1''\<rparr>)]
       [0 \<mapsto> Scalar (VInt 1)] =
     Returns ([(''--seed'', \<lparr>type_tag = INT_t, destination = 0, longPhrase = ''--seed'',
                  helpPhrase = ''The seed.'', xargs = 1, required = False, set_flag = False,
                  defaultValue = ''1''\<rparr>),
               (''-s'', \<lparr>type_tag = INT_t, destination = 0, longPhrase = ''-s'',
                  helpPhrase = ''The seed, for short.'', xargs = 1, required = False, set_flag = False,
                  defaultValue = ''1''\<rparr>)],
              [0 \<mapsto> Scalar (VInt 1)])
   \<and> tokenize [''-s'', ''3''] = Some (''-s 3 '', [0, 2, 3, 4])
   \<and> words_of ''-s 3 '' [0, 2, 3, 4] = [Some ''-s'', Some ''3'']
   \<and> argparse sample_lib [''-s'', ''3'']
       [(''--seed'', \<lparr>type_tag = INT_t, destination = 0, longPhrase = ''--seed'',
                  helpPhrase = ''The seed.'', xargs = 1, required = False, set_flag = False,
                  defaultValue = ''1''\<rparr>),
        (''-s'', \<lparr>type_tag = INT_t, destination = 0, longPhrase = ''-s'',
                  helpPhrase = ''The seed, for short.'', xargs = 1, required = False, set_flag = False,
                  defaultValue = ''1''\<rparr>)]
       [0 \<mapsto> Scalar (VInt 1)] =
     Some (Returns ([(''--seed'', \<lparr>type_tag = INT_t, destination = 0, longPhrase = ''--seed'',
                        helpPhrase = ''The seed.'', xargs = 1, required = False, set_flag = False,
                        defaultValue = ''1''\<rparr>),
                     (''-s'', \<lparr>type_tag = INT_t, destination = 0, longPhrase = ''-s'',
                        helpPhrase = ''The seed, for short.'', xargs = 1, required = False, set_flag = True,
                        defaultValue = ''1''\<rparr>)],
                    [0 \<mapsto> Scalar (VInt 3)]))"
  by (simp add: addp_default_required_def register_param_def Param_ctor_def eval_defs)

subsection \<open>Unbounded arity\<close>

text \<open>
  Claim C7, amended. Let the loop, reading an option, meet the word \<open>k\<close> of a
  non-boolean option whose arity is not positive (the sentinel \<open>-1\<close>), followed by the
  entries \<open>vals\<close> up to the end of the input. If the loop ends without an error, then it
  did not leave \<^verbatim>\<open>argparse\<close>; it is still reading values for \<open>k\<close>, the counter lowered
  once for each word; the registry is unchanged but for \<open>set\<close> of \<open>k\<close>, which is true
  as soon as there is one word; and the destination vector has grown by the converted
  values of the words that are not empty, in order, so by as many values as there are
  non-empty words. An empty word (a quoted \<^verbatim>\<open>""\<close>) counts down and marks the option as
  set but appends nothing. No other destination is written.
\<close>

theorem unbounded_option_reads_to_end:
  assumes word: "str_substr args beg (en - beg) = Some k"
    and k: "map_find reg k = Some p" "type_tag p \<noteq> BOOL" "xargs p \<le> 0"
    and run: "interpret_words L args (beg # en # vals) True par c reg st = Returns (h, loc, reg', st')"
  shows "\<not> h \<and> loc = (False, Some k, xargs p - int (length (words_of args vals))) \<and>
         reg' = (if words_of args vals = [] then reg else mark_set reg k) \<and>
         (\<exists>vs. list_all2 (\<lambda>w x. spec_conversion L (type_tag p) w = Some x) (value_words args vals) vs \<and>
               length vs = length (value_words args vals) \<and>
               vector_at st' (destination p) = vector_at st (destination p) @ vs) \<and>
         (\<forall>a. a \<noteq> destination p \<longrightarrow> st' a = st a)"
proof -
  have "loop_body L args beg en True par c reg st = Returns (False, (False, Some k, xargs p), reg, st)"
    using loop_body_option [OF word k(1)] k(2) by simp
  with run have rest: "interpret_words L args vals False (Some k) (xargs p) reg st = Returns (h, loc, reg', st')"
    by simp
  from k(3) have "xargs p \<noteq> 1" by simp
  from interpret_words_unbounded [OF rest k(3) k(1) k(2) this]
  show ?thesis by (auto simp: list_all2_lengthD [symmetric])
qed

theorem unbounded_option_reads_to_end_witness:
  "str_substr ''--files a b '' 0 (7 - 0) = Some ''--files''
   \<and> map_find [(''--files'', files_param)] ''--files'' = Some files_param
   \<and> type_tag files_param \<noteq> BOOL \<and> xargs files_param \<le> 0
   \<and> interpret_words sample_lib ''--files a b '' (0 # 7 # [8, 9, 10, 11]) True None 1
         [(''--files'', files_param)] Map.empty =
       Returns (False, (False, Some ''--files'', - 3), [(''--files'', files_param\<lparr>set_flag := True\<rparr>)],
                [2 \<mapsto> Vector [VString ''a'', VString ''b'']])
   \<and> value_words ''--files a b '' [8, 9, 10, 11] = [''a'', ''b'']
   \<and> (\<exists>vs. list_all2 (\<lambda>w x. spec_conversion sample_lib STRING w = Some x) [''a'', ''b''] vs \<and>
             length vs = 2 \<and>
             vector_at ([2 \<mapsto> Vector [VString ''a'', VString ''b'']] :: (rat, rat) store) 2 = vs)"
proof -
  have word: "str_substr ''--files a b '' 0 (7 - 0) = Some ''--files''"
    by (simp add: eval_defs)
  have k: "map_find [(''--files'', files_param)] ''--files'' = Some files_param"
    "type_tag files_param \<noteq> BOOL" "xargs files_param \<le> 0"
    by (simp_all add: eval_defs)
  have run: "interpret_words sample_lib ''--files a b '' (0 # 7 # [8, 9, 10, 11]) True None 1
         [(''--files'', files_param)] Map.empty =
       Returns (False, (False, Some ''--files'', - 3), [(''--files'', files_param\<lparr>set_flag := True\<rparr>)],
                [2 \<mapsto> Vector [VString ''a'', VString ''b'']])"
    by (simp add: eval_defs)
  have vw: "value_words ''--files a b '' [8, 9, 10, 11] = [''a'', ''b'']"
    by (simp add: value_words_def eval_defs)
  from unbounded_option_reads_to_end [OF word k run]
  have "\<exists>vs. list_all2 (\<lambda>w x. spec_conversion sample_lib STRING w = Some x) [''a'', ''b''] vs \<and>
             length vs = 2 \<and>
             vector_at ([2 \<mapsto> Vector [VString ''a'', VString ''b'']] :: (rat, rat) store) 2 = vs"
    unfolding vw by (simp add: vector_at_def files_param_def)
  with word k run vw show ?thesis by blast
qed

text \<open>
  The claim as it was stated fails for an empty word: three words follow \<^verbatim>\<open>--files\<close>,
  and the vector ends with two values.
\<close>

theorem unbounded_option_skips_empty_word:
  "tokenize [''--files'', ''a'', [dquote, dquote], ''b''] =
     Some (''--files a '' @ [dquote, dquote] @ '' b '', [0, 7, 8, 9, 11, 11, 13, 14])
   \<and> words_of (''--files a '' @ [dquote, dquote] @ '' b '') [8, 9, 11, 11, 13, 14] = [Some ''a'', Some [], Some ''b'']
   \<and> xargs files_param = - 1
   \<and> argparse sample_lib [''--files'', ''a'', [dquote, dquote], ''b''] [(''--files'', files_param)] Map.empty =
       Some (Returns ([(''--files'', files_param\<lparr>set_flag := True\<rparr>)],
                      [2 \<mapsto> Vector [VString ''a'', VString ''b'']]))"
  by (simp add: eval_defs)

subsection \<open>The help text\<close>

text \<open>
  Claim C8, amended. For a registry built by \<^verbatim>\<open>addp\<close>, \<^verbatim>\<open>argdetails\<close> returns the blocks of
  the registered options, one for each, in the order of the registry; the long phrases
  are the keys, in strictly ascending lexicographic order. A block holds the long phrase,
  the help phrase, the argument line unless the option is boolean or its arity is not
  positive (so not for an option of unbounded arity), and the default line exactly when
  \<open>required\<close> is false. \<^verbatim>\<open>argdetails\<close> is a function of the registry to a string: it
  changes nothing.
\<close>

theorem help_blocks_in_key_order:
  assumes "registered reg"
  shows "argdetails reg = concat (map (\<lambda>(k, p). spec_block p) reg) \<and>
         map (\<lambda>(k, p). longPhrase p) reg = map fst reg \<and>
         sorted_wrt (<) (map fst reg)"
proof -
  from registered_sorted [OF assms]
  have s: "sorted_wrt (<) (map fst reg)" and ph: "\<forall>(k, p) \<in> set reg. longPhrase p = k" by auto
  from ph have "map (\<lambda>(k, p). longPhrase p) reg = map fst reg" by (induction reg) auto
  with s show ?thesis
    by (simp add: argdetails_def argdetails_loop_concat details_entry_spec_block)
qed

theorem help_blocks_in_key_order_witness:
  "registered [(''--help'', help_param), (''--name'', name_param), (''--seed'', seed_param)]
   \<and> argdetails [(''--help'', help_param), (''--name'', name_param), (''--seed'', seed_param)] =
       [tab] @ ''--help'' @ [newline, tab, tab] @ ''Prints this help message.'' @
         [newline, tab, tab] @ ''default: '' @ [squote, squote] @ [newline] @
       [tab] @ ''--name'' @ [newline, tab, tab] @ ''The name for this simulation run.'' @
         [newline, tab, tab] @ ''1 argument of type string.'' @
         [newline, tab, tab] @ ''default: '' @ [squote] @ ''simulation'' @ [squote] @ [newline] @
       [tab] @ ''--seed'' @ [newline, tab, tab] @ ''The seed.'' @
         [newline, tab, tab] @ ''1 argument of type int.'' @ [newline]
   \<and> map (\<lambda>(k, p). longPhrase p) [(''--help'', help_param), (''--name'', name_param), (''--seed'', seed_param)] =
       [''--help'', ''--name'', ''--seed'']"
proof -
  let ?reg = "[(''--help'', help_param), (''--name'', name_param), (''--seed'', seed_param)]"
  have "registered (map_assign (map_assign (map_assign [] ''--seed'' seed_param) ''--name'' name_param)
                      ''--help'' help_param)"
    by (intro registered.intros) (simp_all add: eval_defs)
  then have r: "registered ?reg" by simp
  from help_blocks_in_key_order [OF r]
  have "argdetails ?reg = concat (map (\<lambda>(k, p). spec_block p) ?reg)"
    and "map (\<lambda>(k, p). longPhrase p) ?reg = map fst ?reg" by simp_all
  then show ?thesis using r
    by (simp add: spec_block_def spec_arity_line_def spec_default_line_def to_string_def eval_defs)
qed

text \<open>
  The claim as it was stated fails for an option of unbounded arity: it is not boolean,
  and its block has no argument line.
\<close>

theorem unbounded_option_without_arity_line:
  "addp_xargs sample_lib False STRING 2 (- 1) ''--files'' ''The files to read.'' [] Map.empty =
     Returns ([(''--files'', files_param)], Map.empty)
   \<and> type_tag files_param \<noteq> BOOL
   \<and> argdetails [(''--files'', files_param)] =
       [tab] @ ''--files'' @ [newline, tab, tab] @ ''The files to read.'' @ [newline]"
  by (simp add: addp_xargs_def register_param_def Param_ctor_def argdetails_def details_entry_def eval_defs)

section \<open>Further properties\<close>

subsection \<open>When the scan returns\<close>

lemma replace_equals_set: "set (replace_equals args pe) \<subseteq> insert space (set args)"
proof (induction args pe rule: replace_equals.induct)
  case (1 args pe)
  show ?case
  proof (cases "pe = -1")
    case True
    then show ?thesis by (subst replace_equals.simps) auto
  next
    case False
    let ?a = "if pe > 0 \<and> args ! nat (pe - 1) \<noteq> backslash then args[nat pe := space] else args"
    have "set ?a \<subseteq> insert space (set args)"
      using set_update_subset_insert [of args "nat pe" space] by auto
    with "1.IH" [OF False] False show ?thesis
      by (subst replace_equals.simps) auto
  qed
qed

lemma replace_equals_last:
  assumes "args \<noteq> []" "last args = space"
  shows "last (replace_equals args pe) = space"
  using assms
proof (induction args pe rule: replace_equals.induct)
  case (1 args pe)
  show ?case
  proof (cases "pe = -1")
    case True
    with "1.prems" show ?thesis by (subst replace_equals.simps) simp
  next
    case False
    let ?a = "if pe > 0 \<and> args ! nat (pe - 1) \<noteq> backslash then args[nat pe := space] else args"
    have ne: "?a \<noteq> []" using "1.prems" by simp
    have "args[nat pe := space] ! (length args - 1) = space"
      using "1.prems" by (cases "nat pe = length args - 1") (auto simp: last_conv_nth)
    then have "last ?a = space"
      using "1.prems" by (auto simp: last_conv_nth)
    from "1.IH" [OF False ne this] False show ?thesis
      by (subst replace_equals.simps) simp
  qed
qed

lemma scan_words_without_quotes:
  assumes "dquote \<notin> set args" "args = [] \<or> last args = space"
    and "posspace = -1 \<or> (0 \<le> posspace \<and> posspace < int (length args))"
  shows "\<exists>pos'. scan_words args posspace pos = Some pos'"
  using assms(3)
proof (induction "nat (int (length args) - posspace)" arbitrary: posspace pos rule: less_induct)
  case less
  show ?case
  proof (cases "posspace \<noteq> -1 \<and> posspace \<noteq> int (length args) - 1")
    case False
    then show ?thesis by (subst scan_words.simps) auto
  next
    case True
    with less.prems have range: "0 \<le> posspace" "posspace < int (length args) - 1" by auto
    then have "nat posspace < length args" by linarith
    then have "args ! nat posspace \<in> set args" by (rule nth_mem)
    with assms(1) have nq: "args ! nat posspace \<noteq> dquote" by auto
    define loc where "loc = str_find args space (posspace + 1)"
    define nxt where "nxt = str_find_first_not_of args space (loc + 1)"
    have found: "loc \<noteq> -1"
    proof
      assume none: "loc = -1"
      from range have ne: "args \<noteq> []" by auto
      from range have "nat (posspace + 1) \<le> length args - 1" "length args - 1 < length args" by auto
      from str_find_none [OF none [unfolded loc_def] _ this] range
      have "args ! (length args - 1) \<noteq> space" by simp
      with assms(2) ne show False by (simp add: last_conv_nth)
    qed
    from str_find_found [OF loc_def [symmetric] found]
    have loc: "posspace + 1 \<le> loc" "loc < int (length args)" by auto
    from str_find_first_not_of_bounds [of args space "loc + 1"]
    have nxt: "nxt = -1 \<or> (loc + 1 \<le> nxt \<and> nxt < int (length args))" by (auto simp: nxt_def)
    have step: "scan_words args posspace pos = scan_words args nxt (pos @ [posspace, loc])"
      using True nq by (subst scan_words.simps) (simp add: loc_def nxt_def)
    show ?thesis
    proof (cases "nxt = -1")
      case True
      then show ?thesis unfolding step by (subst scan_words.simps) simp
    next
      case False
      with nxt loc range have "nat (int (length args) - nxt) < nat (int (length args) - posspace)"
        and "nxt = -1 \<or> (0 \<le> nxt \<and> nxt < int (length args))" by auto
      from less.hyps [OF this] show ?thesis unfolding step .
    qed
  qed
qed

lemma join_args_set: "set (join_args argv) \<subseteq> insert space (\<Union>(set ` set argv))"
  by (induction argv) auto

text \<open>
  Further property X1. When no argument word contains a double quote, the scan returns
  and so does \<^verbatim>\<open>argparse\<close>, normally or with an error.
\<close>

theorem parse_returns_without_quotes:
  assumes "\<forall>w \<in> set argv. dquote \<notin> set w"
  shows "\<exists>pos. tokenize argv = Some (replaced_args argv, pos) \<and> (\<exists>r. argparse L argv reg st = Some r)"
proof -
  from assms join_args_set [of argv] have "dquote \<notin> set (join_args argv)" by auto
  with replace_equals_set [of "join_args argv" "str_find (join_args argv) space 0"]
  have nq: "dquote \<notin> set (replaced_args argv)" by (auto simp: replaced_args_def)
  have sp: "replaced_args argv = [] \<or> last (replaced_args argv) = space"
  proof (cases "join_args argv = []")
    case True
    then have "length (replaced_args argv) = 0" by (simp add: replaced_args_def)
    then show ?thesis by simp
  next
    case False
    with join_args_space [of argv] show ?thesis
      by (simp add: replaced_args_def replace_equals_last)
  qed
  from str_find_first_not_of_bounds [of "replaced_args argv" space 0]
  have "str_find_first_not_of (replaced_args argv) space 0 = -1 \<or>
        (0 \<le> str_find_first_not_of (replaced_args argv) space 0 \<and>
         str_find_first_not_of (replaced_args argv) space 0 < int (length (replaced_args argv)))"
    by auto
  from scan_words_without_quotes [OF nq sp this, of "[]"] obtain pos where
    "scan_words (replaced_args argv) (str_find_first_not_of (replaced_args argv) space 0) [] = Some pos"
    by blast
  then have "tokenize argv = Some (replaced_args argv, pos)" by (simp add: tokenize_def)
  then show ?thesis by (auto simp: argparse_def)
qed

theorem parse_returns_without_quotes_witness:
  "(\<forall>w \<in> set [''--seed'', ''3'']. dquote \<notin> set w)
   \<and> argparse sample_lib [''--seed'', ''3''] [(''--seed'', seed_param)] Map.empty =
       Some (Returns ([(''--seed'', seed_param\<lparr>set_flag := True\<rparr>)], [0 \<mapsto> Scalar (VInt 3)]))"
proof -
  have h: "\<forall>w \<in> set [''--seed'', ''3'']. dquote \<notin> set w" by (simp add: dquote_def)
  from parse_returns_without_quotes [OF h, of sample_lib "[(''--seed'', seed_param)]" Map.empty]
  obtain r where "argparse sample_lib [''--seed'', ''3''] [(''--seed'', seed_param)] Map.empty = Some r"
    by blast
  moreover have "argparse sample_lib [''--seed'', ''3''] [(''--seed'', seed_param)] Map.empty =
       Some (Returns ([(''--seed'', seed_param\<lparr>set_flag := True\<rparr>)], [0 \<mapsto> Scalar (VInt 3)]))"
    by (simp add: eval_defs)
  ultimately show ?thesis using h by simp
qed

lemma scan_words_unterminated:
  assumes q: "args ! nat p = dquote" and p: "0 \<le> p" "p \<noteq> int (length args) - 1"
    and none: "str_find args dquote (p + 1) = -1"
    and first: "str_find_first_not_of args space 0 = p"
  shows "scan_words args p pos = None"
proof (rule ccontr)
  let ?stuck = "\<lambda>a q. a ! nat q = dquote \<and> 0 \<le> q \<and> q \<noteq> int (length a) - 1 \<and>
                      str_find a dquote (q + 1) = -1 \<and> str_find_first_not_of a space 0 = q"
  assume "scan_words args p pos \<noteq> None"
  then obtain y where y: "scan_words args p pos = Some y" by auto
  have "\<not> ?stuck args p"
  proof (rule scan_words.raw_induct [where P = "\<lambda>a q c y. \<not> ?stuck a q", OF _ y])
    fix f :: "string \<Rightarrow> int \<Rightarrow> int list \<Rightarrow> int list option" and a q c y
    assume ih: "\<And>a q c y. f a q c = Some y \<Longrightarrow> \<not> ?stuck a q"
      and body: "(if q \<noteq> - 1 \<and> q \<noteq> int (length a) - 1
                  then if a ! nat q = dquote
                       then f a (str_find_first_not_of a space (str_find a dquote (q + 1) + 1))
                              (c @ [q + 1, str_find a dquote (q + 1)])
                       else f a (str_find_first_not_of a space (str_find a space (q + 1) + 1))
                              (c @ [q, str_find a space (q + 1)])
                  else Some c) = Some y"
    show "\<not> ?stuck a q"
    proof
      assume st: "?stuck a q"
      then have "q \<noteq> -1" by auto
      with st body have "f a q (c @ [q + 1, -1]) = Some y" by simp
      from ih [OF this] st show False by simp
    qed
  qed
  with assms show False by simp
qed

lemma replace_equals_nth_cases:
  assumes "i < length args"
  shows "replace_equals args pe ! i = args ! i \<or> replace_equals args pe ! i = space"
  using assms
proof (induction args pe rule: replace_equals.induct)
  case (1 args pe)
  show ?case
  proof (cases "pe = -1")
    case True
    then show ?thesis by (subst replace_equals.simps) simp
  next
    case False
    let ?a = "if pe > 0 \<and> args ! nat (pe - 1) \<noteq> backslash then args[nat pe := space] else args"
    have step: "replace_equals args pe = replace_equals ?a (str_find ?a equals (pe + 1))"
      using False by (subst replace_equals.simps) simp
    have "?a ! i = args ! i \<or> ?a ! i = space"
      using "1.prems" by (cases "i = nat pe") auto
    moreover from "1.IH" [OF False] "1.prems"
    have "replace_equals ?a (str_find ?a equals (pe + 1)) ! i = ?a ! i \<or>
          replace_equals ?a (str_find ?a equals (pe + 1)) ! i = space" by simp
    ultimately show ?thesis unfolding step by metis
  qed
qed

lemma str_find_absent:
  assumes "0 \<le> from" "\<forall>j. nat from \<le> j \<and> j < length s \<longrightarrow> s ! j \<noteq> c"
  shows "str_find s c from = -1"
proof (rule ccontr)
  assume ne: "str_find s c from \<noteq> -1"
  from str_find_found [OF refl ne] have "from \<le> str_find s c from" "str_find s c from < int (length s)"
    "s ! nat (str_find s c from) = c" by auto
  moreover from this assms(1) have "nat from \<le> nat (str_find s c from) \<and> nat (str_find s c from) < length s"
    by auto
  ultimately show False using assms(2) by blast
qed

text \<open>
  Further property X2. When the first argument word opens a quote and no double quote
  follows in the whole invocation, the search for the closing quote fails, the scan
  starts again at the same word for ever, and \<^verbatim>\<open>argparse\<close> does not return.
\<close>

theorem unterminated_quote_never_returns:
  assumes "dquote \<notin> set w" "\<forall>u \<in> set rest. dquote \<notin> set u"
  shows "argparse L ((dquote # w) # rest) reg st = None"
proof -
  let ?s = "join_args ((dquote # w) # rest)"
  let ?p = "str_find ?s space 0"
  let ?a = "replaced_args ((dquote # w) # rest)"
  define t where "t = w @ space # join_args rest"
  have s: "?s = dquote # t" by (simp add: t_def)
  have sq: "space \<noteq> dquote" by (simp add: space_def dquote_def)
  from assms join_args_set [of rest] sq have t: "dquote \<notin> set t" by (auto simp: t_def)
  have tne: "t \<noteq> []" by (simp add: t_def)
  have pf: "?p \<noteq> -1" by (rule first_space_found) simp
  from str_find_found [OF refl pf]
  have p: "0 \<le> ?p" "?p < int (length ?s)" "?s ! nat ?p = space" by auto
  have p0: "0 < ?p"
  proof (rule ccontr)
    assume "\<not> 0 < ?p"
    with p(1) have "?p = 0" by simp
    with p(3) have "?s ! 0 = space" by simp
    then show False unfolding s using sq by simp
  qed
  have len: "length ?a = length t + 1" unfolding replaced_args_def s by simp
  have "0 < length ?s" unfolding s by simp
  from replace_equals_nth [OF p(1) p(2) _ this] p(3) p0
  have "?a ! 0 = ?s ! 0" by (simp add: replaced_args_def)
  also have "\<dots> = dquote" unfolding s by simp
  finally have a0: "?a ! 0 = dquote" .
  have later: "?a ! j \<noteq> dquote" if "1 \<le> j" "j < length ?a" for j
  proof -
    have j: "j < length ?s" unfolding s using that len by simp
    have "?s ! j = t ! (j - 1)" unfolding s using that by (simp add: nth_Cons')
    moreover have "j - 1 < length t" using that len by simp
    ultimately have "?s ! j = t ! (j - 1)" "j - 1 < length t" by simp_all
    then have "?s ! j \<in> set t" by (metis nth_mem)
    with t have "?s ! j \<noteq> dquote" by auto
    moreover from replace_equals_nth_cases [OF j, of ?p]
    have "?a ! j = ?s ! j \<or> ?a ! j = space" by (simp only: replaced_args_def)
    ultimately show ?thesis using sq by metis
  qed
  have first: "str_find_first_not_of ?a space 0 = 0"
  proof -
    from len obtain x xs where xs: "?a = x # xs" by (cases ?a) auto
    with a0 have "x = dquote" by simp
    with xs sq show ?thesis by (simp add: str_find_first_not_of_def)
  qed
  have none: "str_find ?a dquote (0 + 1) = -1"
    by (rule str_find_absent) (use later in auto)
  have "scan_words ?a 0 [] = None"
    by (rule scan_words_unterminated) (use a0 len tne none first in auto)
  then show ?thesis by (simp add: argparse_def tokenize_def first)
qed

theorem unterminated_quote_never_returns_witness:
  "dquote \<notin> set ''Jane'' \<and> (\<forall>u \<in> set [''Q'']. dquote \<notin> set u)
   \<and> argparse sample_lib [dquote # ''Jane'', ''Q''] [(''--name'', name_param)] Map.empty = None"
proof -
  have a: "dquote \<notin> set ''Jane''" and b: "\<forall>u \<in> set [''Q'']. dquote \<notin> set u"
    by (simp_all add: dquote_def)
  from unterminated_quote_never_returns [OF a b] a b show ?thesis by simp
qed

text \<open>
  Further property X7. \<^verbatim>\<open>argparse\<close> returns, normally or with an error, exactly when
  every word the scan reaches that opens with a double quote has its closing quote.
\<close>

theorem parse_returns_iff_quotes_closed:
  "(\<exists>r. argparse L argv reg st = Some r) \<longleftrightarrow> quotes_closed argv"
  using tokenize_returns_iff [of argv]
  by (auto simp: argparse_def tokenize_def split: option.splits)

subsection \<open>The equals sign after the first word\<close>

lemma join_args_append: "join_args (xs @ ys) = join_args xs @ join_args ys"
  by (induction xs) auto

lemma index_from_append:
  "index_from P xs n \<noteq> -1 \<Longrightarrow> index_from P (xs @ ys) n = index_from P xs n"
  by (induction xs arbitrary: n) auto

lemma str_find_append:
  "str_find xs c 0 \<noteq> -1 \<Longrightarrow> str_find (xs @ ys) c 0 = str_find xs c 0"
  by (simp add: str_find_def index_from_append)

lemma replaced_args_equals_or_space:
  assumes pre: "pre \<noteq> []" and opt: "opt = [] \<or> last opt \<noteq> backslash"
  shows "replaced_args (pre @ (opt @ equals # v) # post) = replaced_args (pre @ opt # v # post)"
proof -
  define A where "A = join_args pre @ opt"
  define B where "B = v @ space # join_args post"
  define n where "n = length A"
  let ?s1 = "A @ equals # B" and ?s2 = "A @ space # B"
  have s1: "join_args (pre @ (opt @ equals # v) # post) = ?s1"
    and s2: "join_args (pre @ opt # v # post) = ?s2"
    by (simp_all add: join_args_append A_def B_def)
  from pre have jne: "join_args pre \<noteq> []" by (cases pre) auto
  define p where "p = str_find (join_args pre) space 0"
  have pf: "p \<noteq> -1" unfolding p_def using jne by (rule first_space_found)
  from str_find_found [OF p_def [symmetric] pf]
  have p: "0 \<le> p" "p < int (length (join_args pre))" "join_args pre ! nat p = space" by auto
  then have pn: "p < int n" by (simp add: n_def A_def)
  have p1: "str_find ?s1 space 0 = p" and p2: "str_find ?s2 space 0 = p"
    using pf str_find_append [of "join_args pre" space] by (simp_all add: A_def p_def)
  have Ane: "A \<noteq> []" using jne by (simp add: A_def)
  have "last A \<noteq> backslash"
  proof (cases "opt = []")
    case True
    with jne join_args_space [of pre] show ?thesis by (simp add: A_def)
  next
    case False
    with opt show ?thesis by (simp add: A_def)
  qed
  with Ane have lastA: "A ! (n - 1) \<noteq> backslash" by (simp add: last_conv_nth n_def)
  have npos: "0 < n" using pn p(1) by simp
  have same: "?s1 ! i = ?s2 ! i" if "i \<noteq> n" for i
    using that by (simp add: nth_append n_def)
  have at1: "?s1 ! n = equals" and at2: "?s2 ! n = space" by (simp_all add: n_def)
  have before: "?s1 ! (n - 1) = A ! (n - 1)" using npos by (simp add: nth_append n_def)
  have len: "length ?s1 = length ?s2" by simp
  from p have "nat p < length (join_args pre)" by simp
  then have "?s1 ! nat p = join_args pre ! nat p" "?s2 ! nat p = join_args pre ! nat p"
    by (simp_all add: nth_append A_def)
  with p(3) have sp1: "?s1 ! nat p \<noteq> backslash" and sp2: "?s2 ! nat p \<noteq> backslash"
    by simp_all
  have "replace_equals ?s1 p = replace_equals ?s2 p"
  proof (rule nth_equalityI)
    show "length (replace_equals ?s1 p) = length (replace_equals ?s2 p)" by simp
  next
    fix i
    assume "i < length (replace_equals ?s1 p)"
    then have i1: "i < length ?s1" and i2: "i < length ?s2" by simp_all
    have pl1: "p < int (length ?s1)" and pl2: "p < int (length ?s2)" using pn by (simp_all add: n_def)
    note f1 = replace_equals_nth [OF p(1) pl1 sp1 i1]
    note f2 = replace_equals_nth [OF p(1) pl2 sp2 i2]
    have pm: "nat p - 1 \<noteq> n" "nat p \<noteq> n" using pn p(1) by auto
    consider "i < n" | "i = n" | "i = n + 1" | "n + 1 < i" by linarith
    then show "replace_equals ?s1 p ! i = replace_equals ?s2 p ! i"
    proof cases
      case 1
      then have "i \<noteq> n" "i - 1 \<noteq> n" by auto
      then show ?thesis unfolding f1 f2 using same [of i] same [of "i - 1"] same [OF pm(1)] by simp
    next
      case 2
      then have "p < int i" using pn by simp
      then show ?thesis unfolding f1 f2 using 2 at1 at2 before lastA by simp
    next
      case 3
      then have "p < int i" "i \<noteq> n" "i - 1 = n" using pn by auto
      then show ?thesis unfolding f1 f2 using same [of i] at1 at2 by simp
    next
      case 4
      then have "p < int i" "i \<noteq> n" "i - 1 \<noteq> n" using pn by auto
      then show ?thesis unfolding f1 f2 using same [of i] same [of "i - 1"] by simp
    qed
  qed
  then show ?thesis by (simp add: replaced_args_def s1 s2 p1 p2)
qed

text \<open>
  Further property X3. After the first argument word, \<^verbatim>\<open>opt=v\<close> in one word and \<^verbatim>\<open>opt\<close>,
  \<^verbatim>\<open>v\<close> in two words are the same invocation, for every registry and store, provided
  \<open>opt\<close> does not end with a backslash.
\<close>

theorem equals_or_space_after_first_word:
  assumes "pre \<noteq> []" and "opt = [] \<or> last opt \<noteq> backslash"
  shows "argparse L (pre @ (opt @ equals # v) # post) reg st = argparse L (pre @ opt # v # post) reg st"
  unfolding argparse_def tokenize_def replaced_args_equals_or_space [OF assms] ..

theorem equals_or_space_after_first_word_witness:
  "[''--name'', ''x''] \<noteq> [] \<and> last ''--seed'' \<noteq> backslash
   \<and> argparse sample_lib ([''--name'', ''x''] @ (''--seed'' @ equals # ''3'') # [])
         [(''--name'', name_param), (''--seed'', seed_param)] Map.empty =
       argparse sample_lib ([''--name'', ''x''] @ ''--seed'' # ''3'' # [])
         [(''--name'', name_param), (''--seed'', seed_param)] Map.empty
   \<and> argparse sample_lib ([''--name'', ''x''] @ ''--seed'' # ''3'' # [])
         [(''--name'', name_param), (''--seed'', seed_param)] Map.empty =
       Some (Returns ([(''--name'', name_param\<lparr>set_flag := True\<rparr>), (''--seed'', seed_param\<lparr>set_flag := True\<rparr>)],
                      [1 \<mapsto> Scalar (VString ''x''), 0 \<mapsto> Scalar (VInt 3)]))"
proof -
  have a: "[''--name'', ''x''] \<noteq> []" by simp
  have b: "last ''--seed'' \<noteq> backslash" by (simp add: backslash_def)
  then have b': "''--seed'' = [] \<or> last ''--seed'' \<noteq> backslash" by simp
  have c: "argparse sample_lib ([''--name'', ''x''] @ ''--seed'' # ''3'' # [])
         [(''--name'', name_param), (''--seed'', seed_param)] Map.empty =
       Some (Returns ([(''--name'', name_param\<lparr>set_flag := True\<rparr>), (''--seed'', seed_param\<lparr>set_flag := True\<rparr>)],
                      [1 \<mapsto> Scalar (VString ''x''), 0 \<mapsto> Scalar (VInt 3)]))"
    by (simp add: eval_defs)
  from equals_or_space_after_first_word [OF a b', of sample_lib "''3''" "[]"
      "[(''--name'', name_param), (''--seed'', seed_param)]" Map.empty] a b c
  show ?thesis by simp
qed

subsection \<open>Conversion failures in general\<close>

text \<open>
  Further property X4. For every numeric type and every non-empty word that the library
  conversion of the type rejects, \<^verbatim>\<open>Set\<close> lets the exception escape when the arity is 1,
  and exits with the diagnostic naming the type and the word otherwise.
\<close>

theorem numeric_conversion_failure:
  assumes "v \<noteq> []" and "type_tag p \<in> {INT_t, UINT, LONG, FLOAT, DOUBLE}"
    and "spec_conversion L (type_tag p) v = None"
  shows "Set L p v st =
           (if xargs p = 1 then Throws else Exits (conversion_error (type_label (type_tag p)) v))"
  using assms by (auto simp: Set_def store_value_def)

theorem numeric_conversion_failure_witness:
  "''x1'' \<noteq> [] \<and> type_tag quantity_param \<in> {INT_t, UINT, LONG, FLOAT, DOUBLE}
   \<and> spec_conversion sample_lib (type_tag quantity_param) ''x1'' = None
   \<and> Set sample_lib quantity_param ''x1'' (Map.empty :: (rat, rat) store) =
       Exits (''Error in argument (expected type INT): x1'' @ [newline] @
              ''Options which expect infinite arguments should be last.'' @ [newline])
   \<and> Set sample_lib seed_param ''x1'' (Map.empty :: (rat, rat) store) = Throws"
proof -
  have a: "''x1'' \<noteq> []" by simp
  have b: "type_tag quantity_param \<in> {INT_t, UINT, LONG, FLOAT, DOUBLE}"
    "type_tag seed_param \<in> {INT_t, UINT, LONG, FLOAT, DOUBLE}" by (simp_all add: eval_defs)
  have c: "spec_conversion sample_lib (type_tag quantity_param) ''x1'' = None"
    "spec_conversion sample_lib (type_tag seed_param) ''x1'' = None" by (simp_all add: eval_defs)
  from numeric_conversion_failure [OF a b(1) c(1), of "Map.empty"]
    numeric_conversion_failure [OF a b(2) c(2), of "Map.empty"] b c
  show ?thesis by (simp add: eval_defs)
qed

subsection \<open>The example of the header\<close>

text \<open>
  Further property X5. The four registrations of the example in the header of
  \<^verbatim>\<open>params.h\<close>, with the default of \<^verbatim>\<open>--name\<close> passed as a string, build
  \<open>scenario_registry\<close> and \<open>scenario_store\<close>.
\<close>

theorem scenario_registration:
  "addp sample_lib False INT_t 0 ''--iterations'' ''The number of iterations to perform.'' [] Map.empty =
     Returns ([scenario_registry ! 1], Map.empty)
   \<and> addp_xargs_required sample_lib False FLOAT 1 3 False ''--seeds'' ''The seeds to begin simulation.''
       [scenario_registry ! 1] Map.empty =
     Returns ([scenario_registry ! 1, scenario_registry ! 3], Map.empty)
   \<and> addp_default sample_lib False STRING 2 ''simulation'' ''--name'' ''The name for this simulation run.''
       [scenario_registry ! 1, scenario_registry ! 3] Map.empty =
     Returns ([scenario_registry ! 1, scenario_registry ! 2, scenario_registry ! 3],
              [2 \<mapsto> Scalar (VString ''simulation'')])
   \<and> addp sample_lib False BOOL 3 ''--help'' ''Shows this help message.''
       [scenario_registry ! 1, scenario_registry ! 2, scenario_registry ! 3]
       [2 \<mapsto> Scalar (VString ''simulation'')] =
     Returns (scenario_registry, scenario_store)"
  by (simp add: addp_def addp_xargs_required_def addp_default_def register_param_def Param_ctor_def
        eval_defs)

text \<open>
  Further property X6. On that registry: an invocation with the iterations and three
  seeds binds them and keeps the default name and \<^verbatim>\<open>help = false\<close>; \<^verbatim>\<open>--help\<close> alone
  returns with \<^verbatim>\<open>help = true\<close> although \<^verbatim>\<open>--iterations\<close> is required; an unknown word
  exits; a quoted value with a space is bound as one word, without the quotes.
\<close>

theorem scenario_parse:
  "argparse sample_lib [''--iterations'', ''5'', ''--seeds'', ''1.0'', ''2.0'', ''3.0'']
     scenario_registry scenario_store =
     Some (Returns (mark_set (mark_set scenario_registry ''--iterations'') ''--seeds'',
                    scenario_store(0 \<mapsto> Scalar (VInt 5), 1 \<mapsto> Vector [VFloat 1, VFloat 2, VFloat 3])))
   \<and> argparse sample_lib [''--help''] scenario_registry scenario_store =
     Some (Returns (scenario_registry, scenario_store(3 \<mapsto> Scalar (VBool True))))
   \<and> argparse sample_lib [''--bogus''] scenario_registry scenario_store =
     Some (Exits (''Unrecognized option '' @ [squote] @ ''--bogus'' @ [squote] @ '' in invocation.''))
   \<and> argparse sample_lib [''--name'', [dquote] @ ''Jane Q'' @ [dquote], ''--iterations'', ''5'']
     scenario_registry scenario_store =
     Some (Returns (mark_set (mark_set scenario_registry ''--name'') ''--iterations'',
                    scenario_store(2 \<mapsto> Scalar (VString ''Jane Q''), 0 \<mapsto> Scalar (VInt 5))))"
  by (simp add: eval_defs)

end
